theory Spec2Isabelle
  imports Main "HOL-Library.Word"
begin

unbundle bit_operations_syntax

section \<open>A CHIP-8 virtual machine: data model\<close>

text \<open>
  The development follows \<^verbatim>\<open>src/emulator\<close>: the console display
  (\<^verbatim>\<open>display.py\<close>), the sound timer (\<^verbatim>\<open>sound.py\<close>), the terminal input handler
  (\<^verbatim>\<open>input.py\<close>), the configuration records (\<^verbatim>\<open>config.py\<close>) and the engine
  (\<^verbatim>\<open>emulator.py\<close>). Python integers are unbounded, so plain counters are \<open>nat\<close>
  (they are only ever incremented, or decremented under a \<open>> 0\<close> guard) and the stack
  pointer, which is decremented after a \<open>== 0\<close> test only, is an \<open>int\<close>. The typed arrays
  \<^verbatim>\<open>array('B')\<close> and \<^verbatim>\<open>array('H')\<close> hold machine bytes and 16-bit words. Text written to
  standard output (debug lines, the rendered frame, the terminal bell) is not modelled.
\<close>

type_synonym byte = "8 word"
type_synonym u16 = "16 word"

text \<open>The messages of the \<^verbatim>\<open>RuntimeError\<close>s raised by the engine and the input handler.\<close>

datatype fault =
    PCOutOfBounds nat
  | StackUnderflowOnRET
  | StackOverflowOnCALL
  | SpriteFetchOutOfBounds
  | WaitForKeyNoTTY

datatype error =
    RuntimeError fault
  | IndexError
  | OverflowError
  | ValueError
  | ZeroDivisionError
  | FileNotFoundError
  | KeyboardInterrupt

text \<open>
  A call either returns a value and leaves a state, or raises and leaves the state as
  mutated up to the raise, or never returns (a blocking read that is never served).
\<close>

datatype ('a, 's) res = Ret 'a 's | Exc error 's | Hang

definition state_of :: "('a, 's) res \<Rightarrow> 's option" where
  "state_of r = (case r of Ret _ s \<Rightarrow> Some s | Exc _ s \<Rightarrow> Some s | Hang \<Rightarrow> None)"

definition value_of :: "('a, 's) res \<Rightarrow> 'a option" where
  "value_of r = (case r of Ret v _ \<Rightarrow> Some v | Exc _ _ \<Rightarrow> None | Hang \<Rightarrow> None)"

definition raised :: "('a, 's) res \<Rightarrow> error option" where
  "raised r = (case r of Ret _ _ \<Rightarrow> None | Exc e _ \<Rightarrow> Some e | Hang \<Rightarrow> None)"

text \<open>
  Modelled from the spec: \<^verbatim>\<open>constants.py\<close> is not among the sources. The spec gives a
  memory of 4096 bytes, 16 general registers, a call stack of capacity 16 and a display
  of 64 by 32 pixels.
\<close>

definition MEMORY_SIZE :: nat where "MEMORY_SIZE = 4096"
definition STACK_SIZE :: nat where "STACK_SIZE = 16"
definition V_COUNT :: nat where "V_COUNT = 16"
definition SCREEN_WIDTH :: nat where "SCREEN_WIDTH = 64"
definition SCREEN_HEIGHT :: nat where "SCREEN_HEIGHT = 32"

section \<open>The display (\<^verbatim>\<open>display.py\<close>)\<close>

record Display =
  width :: nat
  height :: nat
  pixels :: "nat list list"
  draw_flag :: bool
  first_render :: bool

definition Display_init :: "nat \<Rightarrow> nat \<Rightarrow> Display" where
  "Display_init w h =
     \<lparr>width = w, height = h, pixels = replicate h (replicate w 0),
      draw_flag = False, first_render = True\<rparr>"

definition clear :: "Display \<Rightarrow> Display" where
  "clear d = d\<lparr>pixels := replicate (height d) (replicate (width d) 0), draw_flag := True\<rparr>"

text \<open>
  The inner loop of \<^verbatim>\<open>draw_sprite\<close>, \<^verbatim>\<open>for col in range(8)\<close>, over the columns still
  to visit. \<^verbatim>\<open>continue\<close> is the recursive call on the rest, \<^verbatim>\<open>break\<close> returns at once.
  The modulus by a zero width raises, and so does an index outside the pixel grid.
\<close>

fun draw_cols ::
  "bool \<Rightarrow> nat \<Rightarrow> nat \<Rightarrow> nat \<Rightarrow> nat list \<Rightarrow> bool \<Rightarrow> Display \<Rightarrow> (bool, Display) res" where
  "draw_cols wrap x yy sprite_byte [] collision d = Ret collision d"
| "draw_cols wrap x yy sprite_byte (col # cols) collision d =
     (if sprite_byte AND (drop_bit col 0x80) = 0
      then draw_cols wrap x yy sprite_byte cols collision d
      else if wrap \<and> width d = 0 then Exc ZeroDivisionError d
      else
        (let xx = (if wrap then (x + col) mod width d else x + col) in
         if xx \<ge> width d then Ret collision d
         else if yy \<ge> length (pixels d) then Exc IndexError d
         else if xx \<ge> length (pixels d ! yy) then Exc IndexError d
         else
           draw_cols wrap x yy sprite_byte cols
             (if pixels d ! yy ! xx = 1 then True else collision)
             (d\<lparr>pixels := (pixels d)[yy := (pixels d ! yy)[xx := (pixels d ! yy ! xx) XOR 1]]\<rparr>)))"

text \<open>The outer loop, \<^verbatim>\<open>for row in range(height)\<close>, over the rows still to visit.\<close>

fun draw_rows ::
  "bool \<Rightarrow> nat \<Rightarrow> nat \<Rightarrow> nat list \<Rightarrow> nat list \<Rightarrow> bool \<Rightarrow> Display \<Rightarrow> (bool, Display) res" where
  "draw_rows wrap x y sprite [] collision d = Ret collision d"
| "draw_rows wrap x y sprite (row # rows) collision d =
     (if wrap \<and> height d = 0 then Exc ZeroDivisionError d
      else
        (let yy = (if wrap then (y + row) mod height d else y + row) in
         if yy \<ge> height d then Ret collision d
         else if row \<ge> length sprite then Exc IndexError d
         else
           (case draw_cols wrap x yy (sprite ! row) [0..<8] collision d of
              Ret collision' d' \<Rightarrow> draw_rows wrap x y sprite rows collision' d'
            | Exc e d' \<Rightarrow> Exc e d'
            | Hang \<Rightarrow> Hang)))"

definition draw_sprite ::
  "Display \<Rightarrow> nat \<Rightarrow> nat \<Rightarrow> nat list \<Rightarrow> nat \<Rightarrow> bool \<Rightarrow> (bool, Display) res" where
  "draw_sprite d x y sprite h wrap =
     (case draw_rows wrap x y sprite [0..<h] False d of
        Ret collision d' \<Rightarrow> Ret collision (d'\<lparr>draw_flag := True\<rparr>)
      | Exc e d' \<Rightarrow> Exc e d'
      | Hang \<Rightarrow> Hang)"

definition render :: "Display \<Rightarrow> Display" where
  "render d = (if \<not> draw_flag d then d else d\<lparr>first_render := False, draw_flag := False\<rparr>)"


section \<open>The sound timer (\<^verbatim>\<open>sound.py\<close>)\<close>

record Sound =
  timer :: nat
  playing :: bool
  enabled :: bool

definition Sound_init :: "bool \<Rightarrow> Sound" where
  "Sound_init en = \<lparr>timer = 0, playing = False, enabled = en\<rparr>"

definition set_timer :: "nat \<Rightarrow> Sound \<Rightarrow> Sound" where
  "set_timer v sd =
     (let s1 = sd\<lparr>timer := v AND 0xFF\<rparr> in
      if timer s1 = 0 then s1\<lparr>playing := False\<rparr> else s1)"

definition Sound_update :: "Sound \<Rightarrow> Sound" where
  "Sound_update sd =
     (if timer sd > 0 then
        (let s1 = sd\<lparr>playing := True\<rparr>;
             s2 = s1\<lparr>timer := timer s1 - 1\<rparr>
         in if timer s2 = 0 then s2\<lparr>playing := False\<rparr> else s2)
      else sd\<lparr>playing := False\<rparr>)"

definition Sound_stop :: "Sound \<Rightarrow> Sound" where
  "Sound_stop sd = sd\<lparr>timer := 0, playing := False\<rparr>"

section \<open>The terminal input handler (\<^verbatim>\<open>input.py\<close>)\<close>

text \<open>
  \<^verbatim>\<open>KEYMAP\<close> comes from the absent \<^verbatim>\<open>constants.py\<close>; it is a parameter, stored in the
  handler as the source does. What the terminal supplies while one instruction runs is
  an \<open>env\<close>: whether standard input is a terminal, the characters that can be read
  without blocking, whether end of file follows them, the characters a blocking read
  receives, and the byte the random generator returns.
\<close>

record InputHandler =
  keymap :: "string \<rightharpoonup> nat"
  keys :: "bool list"

record env =
  stdin_isatty :: bool
  stdin_ready :: "string list"
  stdin_eof :: bool
  stdin_blocking :: "string list"
  rand_bits :: byte

definition ESC :: string where
  "ESC = [CHR 0x1B]"

definition InputHandler_init :: "(string \<rightharpoonup> nat) \<Rightarrow> InputHandler" where
  "InputHandler_init km = \<lparr>keymap = km, keys = replicate 16 False\<rparr>"

text \<open>
  The loop of \<^verbatim>\<open>update_keys\<close>: \<^verbatim>\<open>while select(...)[0]\<close>. At end of file the read
  returns the empty string for ever, so the loop does not end.
\<close>

fun read_ready :: "string list \<Rightarrow> bool \<Rightarrow> InputHandler \<Rightarrow> (unit, InputHandler) res" where
  "read_ready [] eof ih =
     (if eof then
        (case keymap ih [] of
           Some code \<Rightarrow> if code \<ge> length (keys ih) then Exc IndexError ih else Hang
         | None \<Rightarrow> Hang)
      else Ret () ih)"
| "read_ready (key # rest) eof ih =
     (case keymap ih key of
        Some code \<Rightarrow>
          if code \<ge> length (keys ih) then Exc IndexError ih
          else read_ready rest eof (ih\<lparr>keys := (keys ih)[code := True]\<rparr>)
      | None \<Rightarrow>
          if key = ESC then Exc KeyboardInterrupt ih
          else read_ready rest eof ih)"

definition update_keys :: "env \<Rightarrow> InputHandler \<Rightarrow> (unit, InputHandler) res" where
  "update_keys e ih =
     (if \<not> stdin_isatty e then Ret () ih
      else read_ready (stdin_ready e) (stdin_eof e) ih)"

text \<open>\<^verbatim>\<open>is_key_pressed\<close> changes nothing; \<open>None\<close> is the \<^verbatim>\<open>IndexError\<close> of \<^verbatim>\<open>self.keys[key]\<close>.\<close>

definition is_key_pressed :: "InputHandler \<Rightarrow> nat \<Rightarrow> bool option" where
  "is_key_pressed ih key = (if key < length (keys ih) then Some (keys ih ! key) else None)"

text \<open>The blocking loop of \<^verbatim>\<open>wait_for_key\<close>; input that never brings a mapped key blocks for ever.\<close>

fun wait_read :: "string list \<Rightarrow> InputHandler \<Rightarrow> (nat, InputHandler) res" where
  "wait_read [] ih = Hang"
| "wait_read (key # rest) ih =
     (case keymap ih key of
        Some code \<Rightarrow>
          if code \<ge> length (keys ih) then Exc IndexError ih
          else Ret code (ih\<lparr>keys := (keys ih)[code := True]\<rparr>)
      | None \<Rightarrow>
          if key = ESC then Exc KeyboardInterrupt ih
          else wait_read rest ih)"

definition wait_for_key :: "env \<Rightarrow> InputHandler \<Rightarrow> (nat, InputHandler) res" where
  "wait_for_key e ih =
     (if \<not> stdin_isatty e then Exc (RuntimeError WaitForKeyNoTTY) ih
      else wait_read (stdin_blocking e) ih)"

section \<open>Configuration (\<^verbatim>\<open>config.py\<close>)\<close>

record QuirkConfig =
  shift_legacy :: bool
  load_store_increment_i :: bool
  draw_wrap :: bool
  jump_with_v0_quirk :: bool

record EmulatorConfig =
  cfg_cycles_per_frame :: int
  scale :: int
  cfg_debug :: bool
  use_pygame :: bool
  use_tk :: bool
  sound_enabled :: bool
  quirks :: QuirkConfig

definition QuirkConfig_default :: QuirkConfig where
  "QuirkConfig_default =
     \<lparr>shift_legacy = False, load_store_increment_i = False, draw_wrap = False,
      jump_with_v0_quirk = False\<rparr>"

definition EmulatorConfig_default :: "int \<Rightarrow> EmulatorConfig" where
  "EmulatorConfig_default cycles =
     \<lparr>cfg_cycles_per_frame = cycles, scale = 10, cfg_debug = False, use_pygame = True,
      use_tk = False, sound_enabled = True, quirks = QuirkConfig_default\<rparr>"


section \<open>The engine (\<^verbatim>\<open>emulator.py\<close>)\<close>

text \<open>
  The model fixes the console backend, the one the constructor falls back to: the
  display is a \<^verbatim>\<open>Display\<close>, the input handler an \<^verbatim>\<open>InputHandler\<close>, and
  \<^verbatim>\<open>using_pygame\<close> is false, so that \<^verbatim>\<open>run_frame\<close> polls no window events.
\<close>

record Chip8 =
  memory :: "byte list"
  V :: "byte list"
  stack :: "u16 list"
  sp :: int
  pc :: nat
  I :: nat
  delay_timer :: nat
  config :: EmulatorConfig
  display :: Display
  input_handler :: InputHandler
  sound :: Sound
  debug :: bool
  cycles_per_frame :: int
  halted :: bool
  rom_loaded :: bool

subsection \<open>Array accesses\<close>

text \<open>
  Reading or writing a typed array raises \<^verbatim>\<open>IndexError\<close> outside its length, and
  storing a value its item type cannot hold raises \<^verbatim>\<open>OverflowError\<close>; the index is
  checked first. Each access takes the rest of the statement sequence as a continuation.
  A negative index counts from the end.
\<close>

definition py_index :: "nat \<Rightarrow> int \<Rightarrow> nat option" where
  "py_index len i =
     (if 0 \<le> i \<and> i < int len then Some (nat i)
      else if - int len \<le> i \<and> i < 0 then Some (nat (int len + i))
      else None)"

definition V_get :: "Chip8 \<Rightarrow> nat \<Rightarrow> (nat \<Rightarrow> ('a, Chip8) res) \<Rightarrow> ('a, Chip8) res" where
  "V_get s x k = (if x < length (V s) then k (unat (V s ! x)) else Exc IndexError s)"

definition V_set :: "Chip8 \<Rightarrow> nat \<Rightarrow> nat \<Rightarrow> (Chip8 \<Rightarrow> ('a, Chip8) res) \<Rightarrow> ('a, Chip8) res" where
  "V_set s x v k =
     (if x \<ge> length (V s) then Exc IndexError s
      else if v > 0xFF then Exc OverflowError s
      else k (s\<lparr>V := (V s)[x := of_nat v]\<rparr>))"

definition memory_get :: "Chip8 \<Rightarrow> nat \<Rightarrow> (nat \<Rightarrow> ('a, Chip8) res) \<Rightarrow> ('a, Chip8) res" where
  "memory_get s a k = (if a < length (memory s) then k (unat (memory s ! a)) else Exc IndexError s)"

definition memory_set :: "Chip8 \<Rightarrow> nat \<Rightarrow> nat \<Rightarrow> (Chip8 \<Rightarrow> ('a, Chip8) res) \<Rightarrow> ('a, Chip8) res" where
  "memory_set s a v k =
     (if a \<ge> length (memory s) then Exc IndexError s
      else if v > 0xFF then Exc OverflowError s
      else k (s\<lparr>memory := (memory s)[a := of_nat v]\<rparr>))"

definition stack_get :: "Chip8 \<Rightarrow> int \<Rightarrow> (nat \<Rightarrow> ('a, Chip8) res) \<Rightarrow> ('a, Chip8) res" where
  "stack_get s i k =
     (case py_index (length (stack s)) i of
        None \<Rightarrow> Exc IndexError s
      | Some j \<Rightarrow> k (unat (stack s ! j)))"

definition stack_set :: "Chip8 \<Rightarrow> int \<Rightarrow> nat \<Rightarrow> (Chip8 \<Rightarrow> ('a, Chip8) res) \<Rightarrow> ('a, Chip8) res" where
  "stack_set s i v k =
     (case py_index (length (stack s)) i of
        None \<Rightarrow> Exc IndexError s
      | Some j \<Rightarrow>
          if v > 0xFFFF then Exc OverflowError s
          else k (s\<lparr>stack := (stack s)[j := of_nat v]\<rparr>))"

subsection \<open>Construction, ROM loading, reset\<close>

text \<open>\<^verbatim>\<open>load_fontset\<close>: \<^verbatim>\<open>for i, byte in enumerate(FONTSET): self.memory[i] = byte\<close>.\<close>

fun write_bytes :: "(nat \<times> byte) list \<Rightarrow> nat \<Rightarrow> Chip8 \<Rightarrow> (unit, Chip8) res" where
  "write_bytes [] base s = Ret () s"
| "write_bytes ((i, b) # rest) base s =
     memory_set s (base + i) (unat b) (\<lambda>s'. write_bytes rest base s')"

definition load_fontset :: "byte list \<Rightarrow> Chip8 \<Rightarrow> (unit, Chip8) res" where
  "load_fontset fontset s = write_bytes (enumerate 0 fontset) 0 s"

text \<open>
  \<^verbatim>\<open>Chip8.__init__\<close> on the console branch. \<^verbatim>\<open>FONTSET\<close> and \<^verbatim>\<open>KEYMAP\<close> come from
  the absent \<^verbatim>\<open>constants.py\<close> and are parameters.
\<close>

definition Chip8_init ::
  "byte list \<Rightarrow> (string \<rightharpoonup> nat) \<Rightarrow> int \<Rightarrow> EmulatorConfig option \<Rightarrow> (unit, Chip8) res" where
  "Chip8_init fontset km cycles cfg =
     (let c = (case cfg of Some c \<Rightarrow> c | None \<Rightarrow> EmulatorConfig_default cycles) in
      case load_fontset fontset
        \<lparr>memory = replicate MEMORY_SIZE 0, V = replicate V_COUNT 0,
         stack = replicate STACK_SIZE 0, sp = 0, pc = 0x200, I = 0, delay_timer = 0,
         config = c, display = Display_init SCREEN_WIDTH SCREEN_HEIGHT,
         input_handler = InputHandler_init km, sound = Sound_init (sound_enabled c),
         debug = cfg_debug c, cycles_per_frame = cfg_cycles_per_frame c,
         halted = False, rom_loaded = False\<rparr> of
        Ret u s \<Rightarrow> Ret () (s\<lparr>rom_loaded := False\<rparr>)
      | Exc e s \<Rightarrow> Exc e s
      | Hang \<Rightarrow> Hang)"

text \<open>\<^verbatim>\<open>load_rom\<close>; the file's contents are the argument, \<open>None\<close> when it cannot be opened.\<close>

definition load_rom :: "byte list option \<Rightarrow> Chip8 \<Rightarrow> (unit, Chip8) res" where
  "load_rom file s =
     (case file of
        None \<Rightarrow> Exc FileNotFoundError s
      | Some rom \<Rightarrow>
          if length rom > MEMORY_SIZE - 0x200 then Exc ValueError s
          else
            (case write_bytes (enumerate 0 rom) 0x200 s of
               Ret u s' \<Rightarrow> Ret () (s'\<lparr>pc := 0x200, halted := False, rom_loaded := True\<rparr>)
             | Exc e s' \<Rightarrow> Exc e s'
             | Hang \<Rightarrow> Hang))"

fun zero_regs :: "nat list \<Rightarrow> Chip8 \<Rightarrow> (unit, Chip8) res" where
  "zero_regs [] s = Ret () s"
| "zero_regs (i # rest) s = V_set s i 0 (\<lambda>s'. zero_regs rest s')"

definition reset :: "Chip8 \<Rightarrow> (unit, Chip8) res" where
  "reset s =
     (case zero_regs [0..<V_COUNT] s of
        Ret u s' \<Rightarrow>
          Ret () (s'\<lparr>sp := 0, pc := 0x200, I := 0, delay_timer := 0,
                    sound := set_timer 0 (sound s'), halted := False\<rparr>)
      | Exc e s' \<Rightarrow> Exc e s'
      | Hang \<Rightarrow> Hang)"

subsection \<open>Fetch\<close>

definition fetch_opcode :: "Chip8 \<Rightarrow> (nat, Chip8) res" where
  "fetch_opcode s =
     (if pc s \<ge> MEMORY_SIZE \<or> pc s + 1 \<ge> MEMORY_SIZE
      then Exc (RuntimeError (PCOutOfBounds (pc s))) (s\<lparr>halted := True\<rparr>)
      else
        memory_get s (pc s) (\<lambda>hi.
        memory_get s (pc s + 1) (\<lambda>lo.
          Ret ((push_bit 8 hi) OR lo) (s\<lparr>pc := pc s + 2\<rparr>))))"


subsection \<open>Decode and execute\<close>

text \<open>Class \<open>0x0\<close>: \<^verbatim>\<open>00E0\<close> clear, \<^verbatim>\<open>00EE\<close> return, anything else ignored.\<close>

definition exec_0 :: "nat \<Rightarrow> Chip8 \<Rightarrow> (unit, Chip8) res" where
  "exec_0 opcode s =
     (if opcode = 0x00E0 then Ret () (s\<lparr>display := clear (display s)\<rparr>)
      else if opcode = 0x00EE then
        (if sp s = 0 then Exc (RuntimeError StackUnderflowOnRET) (s\<lparr>halted := True\<rparr>)
         else
           (let s1 = s\<lparr>sp := sp s - 1\<rparr> in
            stack_get s1 (sp s1) (\<lambda>a. Ret () (s1\<lparr>pc := a\<rparr>))))
      else Ret () s)"

text \<open>Class \<open>0x2\<close>: call.\<close>

definition exec_2 :: "nat \<Rightarrow> Chip8 \<Rightarrow> (unit, Chip8) res" where
  "exec_2 nnn s =
     (if sp s \<ge> int STACK_SIZE then Exc (RuntimeError StackOverflowOnCALL) (s\<lparr>halted := True\<rparr>)
      else
        stack_set s (sp s) (pc s) (\<lambda>s1.
          Ret () (s1\<lparr>sp := sp s1 + 1, pc := nnn\<rparr>)))"

text \<open>
  Class \<open>0x8\<close>: the ALU group. \<open>(a - b) & 0xFF\<close> is computed on integers; \<open>AND\<close> on
  \<open>int\<close> is two's complement, as Python's is.
\<close>

definition exec_8 :: "nat \<Rightarrow> nat \<Rightarrow> nat \<Rightarrow> Chip8 \<Rightarrow> (unit, Chip8) res" where
  "exec_8 x y n s =
     (if n = 0x0 then
        V_get s y (\<lambda>vy. V_set s x vy (Ret ()))
      else if n = 0x1 then
        V_get s x (\<lambda>vx. V_get s y (\<lambda>vy. V_set s x (vx OR vy) (Ret ())))
      else if n = 0x2 then
        V_get s x (\<lambda>vx. V_get s y (\<lambda>vy. V_set s x (vx AND vy) (Ret ())))
      else if n = 0x3 then
        V_get s x (\<lambda>vx. V_get s y (\<lambda>vy. V_set s x (vx XOR vy) (Ret ())))
      else if n = 0x4 then
        V_get s x (\<lambda>vx. V_get s y (\<lambda>vy.
          (let sum_val = vx + vy in
           V_set s x (sum_val AND 0xFF) (\<lambda>s1.
           V_set s1 0xF (if sum_val > 0xFF then 1 else 0) (Ret ())))))
      else if n = 0x5 then
        V_get s x (\<lambda>vx. V_get s y (\<lambda>vy.
          V_set s 0xF (if vx > vy then 1 else 0) (\<lambda>s1.
          V_get s1 x (\<lambda>vx1. V_get s1 y (\<lambda>vy1.
            V_set s1 x (nat ((int vx1 - int vy1) AND 0xFF)) (Ret ()))))))
      else if n = 0x6 then
        (if shift_legacy (quirks (config s)) then V_get s y else V_get s x) (\<lambda>source.
          V_set s 0xF (source AND 0x1) (\<lambda>s1.
          V_set s1 x ((drop_bit 1 source) AND 0xFF) (Ret ())))
      else if n = 0x7 then
        V_get s y (\<lambda>vy. V_get s x (\<lambda>vx.
          V_set s 0xF (if vy > vx then 1 else 0) (\<lambda>s1.
          V_get s1 y (\<lambda>vy1. V_get s1 x (\<lambda>vx1.
            V_set s1 x (nat ((int vy1 - int vx1) AND 0xFF)) (Ret ()))))))
      else if n = 0xE then
        (if shift_legacy (quirks (config s)) then V_get s y else V_get s x) (\<lambda>source.
          V_set s 0xF (drop_bit 7 (source AND 0x80)) (\<lambda>s1.
          V_set s1 x ((push_bit 1 source) AND 0xFF) (Ret ())))
      else Ret () s)"

text \<open>Class \<open>0xD\<close>: draw. The list comprehension reads the sprite bytes one by one.\<close>

fun fetch_sprite :: "nat list \<Rightarrow> Chip8 \<Rightarrow> nat list option" where
  "fetch_sprite [] s = Some []"
| "fetch_sprite (i # rest) s =
     (if I s + i < length (memory s)
      then map_option (\<lambda>bs. unat (memory s ! (I s + i)) # bs) (fetch_sprite rest s)
      else None)"

definition exec_D :: "nat \<Rightarrow> nat \<Rightarrow> nat \<Rightarrow> Chip8 \<Rightarrow> (unit, Chip8) res" where
  "exec_D x y n s =
     V_get s x (\<lambda>x_pos. V_get s y (\<lambda>y_pos.
       if I s + n > MEMORY_SIZE
       then Exc (RuntimeError SpriteFetchOutOfBounds) (s\<lparr>halted := True\<rparr>)
       else
         (case fetch_sprite [0..<n] s of
            None \<Rightarrow> Exc IndexError s
          | Some sprite \<Rightarrow>
              (case draw_sprite (display s) x_pos y_pos sprite n (draw_wrap (quirks (config s))) of
                 Ret collision d' \<Rightarrow>
                   V_set (s\<lparr>display := d'\<rparr>) 0xF (if collision then 1 else 0) (Ret ())
               | Exc e d' \<Rightarrow> Exc e (s\<lparr>display := d'\<rparr>)
               | Hang \<Rightarrow> Hang))))"

text \<open>Class \<open>0xE\<close>: skip on key state.\<close>

definition exec_E :: "nat \<Rightarrow> nat \<Rightarrow> Chip8 \<Rightarrow> (unit, Chip8) res" where
  "exec_E x nn s =
     (if nn = 0x9E then
        V_get s x (\<lambda>vx.
          case is_key_pressed (input_handler s) vx of
            None \<Rightarrow> Exc IndexError s
          | Some pressed \<Rightarrow> Ret () (if pressed then s\<lparr>pc := pc s + 2\<rparr> else s))
      else if nn = 0xA1 then
        V_get s x (\<lambda>vx.
          case is_key_pressed (input_handler s) vx of
            None \<Rightarrow> Exc IndexError s
          | Some pressed \<Rightarrow> Ret () (if \<not> pressed then s\<lparr>pc := pc s + 2\<rparr> else s))
      else Ret () s)"

text \<open>Class \<open>0xF\<close>: timers, keys, index register, BCD, register store and load.\<close>

fun store_regs :: "nat list \<Rightarrow> Chip8 \<Rightarrow> (unit, Chip8) res" where
  "store_regs [] s = Ret () s"
| "store_regs (i # rest) s =
     V_get s i (\<lambda>v. memory_set s (I s + i) v (\<lambda>s'. store_regs rest s'))"

fun load_regs :: "nat list \<Rightarrow> Chip8 \<Rightarrow> (unit, Chip8) res" where
  "load_regs [] s = Ret () s"
| "load_regs (i # rest) s =
     memory_get s (I s + i) (\<lambda>v. V_set s i v (\<lambda>s'. load_regs rest s'))"

definition exec_F :: "env \<Rightarrow> nat \<Rightarrow> nat \<Rightarrow> Chip8 \<Rightarrow> (unit, Chip8) res" where
  "exec_F e x nn s =
     (if nn = 0x07 then V_set s x (delay_timer s) (Ret ())
      else if nn = 0x0A then
        (case wait_for_key e (input_handler s) of
           Ret code ih \<Rightarrow> V_set (s\<lparr>input_handler := ih\<rparr>) x code (Ret ())
         | Exc err ih \<Rightarrow> Exc err (s\<lparr>input_handler := ih\<rparr>)
         | Hang \<Rightarrow> Hang)
      else if nn = 0x15 then V_get s x (\<lambda>vx. Ret () (s\<lparr>delay_timer := vx\<rparr>))
      else if nn = 0x18 then V_get s x (\<lambda>vx. Ret () (s\<lparr>sound := set_timer vx (sound s)\<rparr>))
      else if nn = 0x1E then V_get s x (\<lambda>vx. Ret () (s\<lparr>I := I s + vx\<rparr>))
      else if nn = 0x29 then V_get s x (\<lambda>vx. Ret () (s\<lparr>I := vx * 5\<rparr>))
      else if nn = 0x33 then
        V_get s x (\<lambda>val.
          memory_set s (I s) (val div 100) (\<lambda>s1.
          memory_set s1 (I s1 + 1) ((val div 10) mod 10) (\<lambda>s2.
          memory_set s2 (I s2 + 2) (val mod 10) (Ret ()))))
      else if nn = 0x55 then
        (case store_regs [0..<x + 1] s of
           Ret u s' \<Rightarrow>
             Ret () (if load_store_increment_i (quirks (config s'))
                     then s'\<lparr>I := I s' + (x + 1)\<rparr> else s')
         | Exc err s' \<Rightarrow> Exc err s'
         | Hang \<Rightarrow> Hang)
      else if nn = 0x65 then
        (case load_regs [0..<x + 1] s of
           Ret u s' \<Rightarrow>
             Ret () (if load_store_increment_i (quirks (config s'))
                     then s'\<lparr>I := I s' + (x + 1)\<rparr> else s')
         | Exc err s' \<Rightarrow> Exc err s'
         | Hang \<Rightarrow> Hang)
      else Ret () s)"

definition decode_and_execute :: "env \<Rightarrow> nat \<Rightarrow> Chip8 \<Rightarrow> (unit, Chip8) res" where
  "decode_and_execute e opcode s =
     (let nnn = opcode AND 0x0FFF;
          nn = opcode AND 0x00FF;
          n = opcode AND 0x000F;
          x = drop_bit 8 (opcode AND 0x0F00);
          y = drop_bit 4 (opcode AND 0x00F0);
          op = drop_bit 12 (opcode AND 0xF000)
      in
      if op = 0x0 then exec_0 opcode s
      else if op = 0x1 then Ret () (s\<lparr>pc := nnn\<rparr>)
      else if op = 0x2 then exec_2 nnn s
      else if op = 0x3 then
        V_get s x (\<lambda>vx. Ret () (if vx = nn then s\<lparr>pc := pc s + 2\<rparr> else s))
      else if op = 0x4 then
        V_get s x (\<lambda>vx. Ret () (if vx \<noteq> nn then s\<lparr>pc := pc s + 2\<rparr> else s))
      else if op = 0x5 then
        (if n = 0 then
           V_get s x (\<lambda>vx. V_get s y (\<lambda>vy.
             Ret () (if vx = vy then s\<lparr>pc := pc s + 2\<rparr> else s)))
         else Ret () s)
      else if op = 0x6 then V_set s x nn (Ret ())
      else if op = 0x7 then V_get s x (\<lambda>vx. V_set s x ((vx + nn) AND 0xFF) (Ret ()))
      else if op = 0x8 then exec_8 x y n s
      else if op = 0x9 then
        (if n = 0 then
           V_get s x (\<lambda>vx. V_get s y (\<lambda>vy.
             Ret () (if vx \<noteq> vy then s\<lparr>pc := pc s + 2\<rparr> else s)))
         else Ret () s)
      else if op = 0xA then Ret () (s\<lparr>I := nnn\<rparr>)
      else if op = 0xB then V_get s 0 (\<lambda>v0. Ret () (s\<lparr>pc := nnn + v0\<rparr>))
      else if op = 0xC then V_set s x (unat (rand_bits e) AND nn) (Ret ())
      else if op = 0xD then exec_D x y n s
      else if op = 0xE then exec_E x nn s
      else if op = 0xF then exec_F e x nn s
      else Ret () s)"

subsection \<open>Timers, single step, frame\<close>

definition update_timers :: "Chip8 \<Rightarrow> Chip8" where
  "update_timers s =
     (let s1 = (if delay_timer s > 0 then s\<lparr>delay_timer := delay_timer s - 1\<rparr> else s) in
      s1\<lparr>sound := Sound_update (sound s1)\<rparr>)"

definition step :: "env \<Rightarrow> Chip8 \<Rightarrow> (unit, Chip8) res" where
  "step e s =
     (if halted s then Ret () s
      else
        (case update_keys e (input_handler s) of
           Ret u ih \<Rightarrow>
             (case fetch_opcode (s\<lparr>input_handler := ih\<rparr>) of
                Ret opcode s1 \<Rightarrow> decode_and_execute e opcode s1
              | Exc err s1 \<Rightarrow> Exc err s1
              | Hang \<Rightarrow> Hang)
         | Exc err ih \<Rightarrow> Exc err (s\<lparr>input_handler := ih\<rparr>)
         | Hang \<Rightarrow> Hang))"

text \<open>
  The loop of \<^verbatim>\<open>run_frame\<close>, \<^verbatim>\<open>for _ in range(self.cycles_per_frame)\<close>, over the
  iterations still to run; \<open>envs k\<close> is what the terminal supplies during iteration \<open>k\<close>.
  An exception of \<^verbatim>\<open>step\<close> leaves the loop and the function.
\<close>

fun run_cycles :: "(nat \<Rightarrow> env) \<Rightarrow> nat list \<Rightarrow> Chip8 \<Rightarrow> (unit, Chip8) res" where
  "run_cycles envs [] s = Ret () s"
| "run_cycles envs (k # rest) s =
     (if halted s then Ret () s
      else
        (case step (envs k) s of
           Ret u s' \<Rightarrow> run_cycles envs rest s'
         | Exc err s' \<Rightarrow> Exc err s'
         | Hang \<Rightarrow> Hang))"

definition present :: "Chip8 \<Rightarrow> Chip8" where
  "present s = s\<lparr>display := render (display s)\<rparr>"

definition run_frame :: "(nat \<Rightarrow> env) \<Rightarrow> Chip8 \<Rightarrow> (unit, Chip8) res" where
  "run_frame envs s =
     (if halted s then Ret () (present (update_timers s))
      else
        (case run_cycles envs [0..<nat (cycles_per_frame s)] s of
           Ret u s' \<Rightarrow> Ret () (present (update_timers s'))
         | Exc err s' \<Rightarrow> Exc err s'
         | Hang \<Rightarrow> Hang))"

subsection \<open>Snapshots\<close>

text \<open>
  \<^verbatim>\<open>int.to_bytes(length, 'big')\<close> raises \<^verbatim>\<open>OverflowError\<close> (\<open>None\<close>) on a negative
  value and on one that does not fit; \<^verbatim>\<open>int.from_bytes(b, 'big')\<close> accepts any length.
\<close>

definition to_bytes_big :: "nat \<Rightarrow> int \<Rightarrow> byte list option" where
  "to_bytes_big len v =
     (if v < 0 \<or> v \<ge> 256 ^ len then None
      else Some (map (\<lambda>k. of_int (v div 256 ^ (len - 1 - k))) [0..<len]))"

definition from_bytes_big :: "byte list \<Rightarrow> nat" where
  "from_bytes_big bs = foldl (\<lambda>acc b. acc * 256 + unat b) 0 bs"

text \<open>
  \<^verbatim>\<open>array('H').tobytes()\<close> and \<^verbatim>\<open>array('H', bytes)\<close> use the machine's byte order,
  the parameter \<open>le\<close> (true on a little-endian machine). A byte string of odd length is
  refused with \<^verbatim>\<open>ValueError\<close> (\<open>None\<close>).
\<close>

definition u16_tobytes :: "bool \<Rightarrow> u16 \<Rightarrow> byte list" where
  "u16_tobytes le w =
     (let lo = (ucast w :: byte); hi = (ucast (drop_bit 8 w) :: byte) in
      if le then [lo, hi] else [hi, lo])"

fun u16_frombytes :: "bool \<Rightarrow> byte list \<Rightarrow> u16 list option" where
  "u16_frombytes le [] = Some []"
| "u16_frombytes le [b] = None"
| "u16_frombytes le (b0 # b1 # rest) =
     map_option
       (\<lambda>ws. (if le then (push_bit 8 (ucast b1 :: u16)) OR ucast b0
                else (push_bit 8 (ucast b0 :: u16)) OR ucast b1) # ws)
       (u16_frombytes le rest)"

text \<open>
  \<^verbatim>\<open>save_state\<close> returns the bytes of the file it writes; a raise leaves a truncated
  file behind, which is not modelled.
\<close>

definition save_state :: "bool \<Rightarrow> Chip8 \<Rightarrow> error + byte list" where
  "save_state le s =
     (case to_bytes_big 2 (int (pc s)) of
        None \<Rightarrow> Inl OverflowError
      | Some pc_b \<Rightarrow>
     (case to_bytes_big 2 (int (I s)) of
        None \<Rightarrow> Inl OverflowError
      | Some i_b \<Rightarrow>
     (case to_bytes_big 1 (sp s) of
        None \<Rightarrow> Inl OverflowError
      | Some sp_b \<Rightarrow>
     (case to_bytes_big 1 (int (delay_timer s)) of
        None \<Rightarrow> Inl OverflowError
      | Some dt_b \<Rightarrow>
     (case to_bytes_big 1 (int (timer (sound s))) of
        None \<Rightarrow> Inl OverflowError
      | Some st_b \<Rightarrow>
          Inr (memory s @ V s @ concat (map (u16_tobytes le) (stack s))
               @ pc_b @ i_b @ sp_b @ dt_b @ st_b))))))"

text \<open>\<^verbatim>\<open>load_state\<close>: each \<^verbatim>\<open>f.read(k)\<close> takes the next \<open>k\<close> bytes, or what is left.\<close>

definition load_state :: "bool \<Rightarrow> byte list option \<Rightarrow> Chip8 \<Rightarrow> (unit, Chip8) res" where
  "load_state le file s =
     (case file of
        None \<Rightarrow> Exc FileNotFoundError s
      | Some f0 \<Rightarrow>
          (let s1 = s\<lparr>memory := take MEMORY_SIZE f0\<rparr>; f1 = drop MEMORY_SIZE f0;
               s2 = s1\<lparr>V := take V_COUNT f1\<rparr>; f2 = drop V_COUNT f1
           in
           case u16_frombytes le (take (STACK_SIZE * 2) f2) of
             None \<Rightarrow> Exc ValueError s2
           | Some ws \<Rightarrow>
               (let s3 = s2\<lparr>stack := ws\<rparr>; f3 = drop (STACK_SIZE * 2) f2;
                    s4 = s3\<lparr>pc := from_bytes_big (take 2 f3)\<rparr>; f4 = drop 2 f3;
                    s5 = s4\<lparr>I := from_bytes_big (take 2 f4)\<rparr>; f5 = drop 2 f4;
                    s6 = s5\<lparr>sp := int (from_bytes_big (take 1 f5))\<rparr>; f6 = drop 1 f5;
                    s7 = s6\<lparr>delay_timer := from_bytes_big (take 1 f6)\<rparr>; f7 = drop 1 f6;
                    timer_byte = take 1 f7
                in
                Ret () (if timer_byte \<noteq> []
                        then s7\<lparr>sound := set_timer (from_bytes_big timer_byte) (sound s7)\<rparr>
                        else s7))))"


text \<open>A sequence of instructions executed one after the other, up to the first raise.\<close>

fun exec_all :: "env \<Rightarrow> nat list \<Rightarrow> Chip8 \<Rightarrow> (unit, Chip8) res" where
  "exec_all e [] s = Ret () s"
| "exec_all e (opcode # rest) s =
     (case decode_and_execute e opcode s of
        Ret u s' \<Rightarrow> exec_all e rest s'
      | Exc err s' \<Rightarrow> Exc err s'
      | Hang \<Rightarrow> Hang)"

section \<open>The drawing rule as the specification words it\<close>

text \<open>
  The rows a draw visits, each with its target row: with wrap every row, at
  \<open>(y + row) mod height\<close>; without, the rows before the first one with
  \<open>y + row \<ge> height\<close>.
\<close>

definition spec_rows :: "nat \<Rightarrow> nat \<Rightarrow> nat \<Rightarrow> bool \<Rightarrow> (nat \<times> nat) list" where
  "spec_rows h y n wrap =
     (if wrap then map (\<lambda>row. (row, (y + row) mod h)) [0..<n]
      else map (\<lambda>row. (row, y + row)) (takeWhile (\<lambda>row. y + row < h) [0..<n]))"

text \<open>
  The target columns of one row byte: its set bits, most significant first (column
  \<open>col\<close> is bit \<open>7 - col\<close>); with wrap each at \<open>(x + col) mod width\<close>; without, those
  before the first set bit with \<open>x + col \<ge> width\<close>.
\<close>

definition spec_cols :: "nat \<Rightarrow> nat \<Rightarrow> nat \<Rightarrow> bool \<Rightarrow> nat list" where
  "spec_cols w x b wrap =
     (let set_bits = filter (\<lambda>col. bit b (7 - col)) [0..<8] in
      if wrap then map (\<lambda>col. (x + col) mod w) set_bits
      else map (\<lambda>col. x + col) (takeWhile (\<lambda>col. x + col < w) set_bits))"

definition spec_targets ::
  "nat \<Rightarrow> nat \<Rightarrow> nat \<Rightarrow> nat \<Rightarrow> nat list \<Rightarrow> nat \<Rightarrow> bool \<Rightarrow> (nat \<times> nat) list" where
  "spec_targets w h x y sprite n wrap =
     concat (map (\<lambda>(row, yy). map (\<lambda>xx. (yy, xx)) (spec_cols w x (sprite ! row) wrap))
                 (spec_rows h y n wrap))"

text \<open>
  Each target pixel in turn: a collision is recorded when it is already set, and it is
  XORed.
\<close>

fun spec_plot :: "(nat \<times> nat) list \<Rightarrow> bool \<Rightarrow> nat list list \<Rightarrow> bool \<times> nat list list" where
  "spec_plot [] c px = (c, px)"
| "spec_plot ((yy, xx) # ts) c px =
     spec_plot ts (c \<or> px ! yy ! xx = 1) (px[yy := (px ! yy)[xx := (px ! yy ! xx) XOR 1]])"

definition spec_draw ::
  "Display \<Rightarrow> nat \<Rightarrow> nat \<Rightarrow> nat list \<Rightarrow> nat \<Rightarrow> bool \<Rightarrow> (bool, Display) res" where
  "spec_draw d x y sprite n wrap =
     (let r = spec_plot (spec_targets (width d) (height d) x y sprite n wrap) False (pixels d)
      in Ret (fst r) (d\<lparr>pixels := snd r, draw_flag := True\<rparr>))"

text \<open>A display whose pixel grid has the dimensions it declares, both positive.\<close>

definition grid_ok :: "Display \<Rightarrow> bool" where
  "grid_ok d =
     (0 < width d \<and> 0 < height d \<and> length (pixels d) = height d
      \<and> list_all (\<lambda>r. length r = width d) (pixels d))"

text \<open>The same lists over any rows and columns still to visit, for the inductions.\<close>

definition cols_from :: "nat \<Rightarrow> nat \<Rightarrow> nat \<Rightarrow> bool \<Rightarrow> nat list \<Rightarrow> nat list" where
  "cols_from w x b wrap cols =
     (if wrap then map (\<lambda>col. (x + col) mod w) (filter (\<lambda>col. bit b (7 - col)) cols)
      else map (\<lambda>col. x + col)
             (takeWhile (\<lambda>col. x + col < w) (filter (\<lambda>col. bit b (7 - col)) cols)))"

definition rows_from :: "nat \<Rightarrow> nat \<Rightarrow> bool \<Rightarrow> nat list \<Rightarrow> (nat \<times> nat) list" where
  "rows_from h y wrap rows =
     (if wrap then map (\<lambda>row. (row, (y + row) mod h)) rows
      else map (\<lambda>row. (row, y + row)) (takeWhile (\<lambda>row. y + row < h) rows))"

definition targets_from ::
  "nat \<Rightarrow> nat \<Rightarrow> nat \<Rightarrow> nat \<Rightarrow> nat list \<Rightarrow> bool \<Rightarrow> nat list \<Rightarrow> (nat \<times> nat) list" where
  "targets_from w h x y sprite wrap rows =
     concat (map (\<lambda>(row, yy). map (\<lambda>xx. (yy, xx)) (spec_cols w x (sprite ! row) wrap))
                 (rows_from h y wrap rows))"


text \<open>A pixel grid of \<open>h\<close> rows of \<open>w\<close> pixels, and a position inside it.\<close>

definition shape :: "nat \<Rightarrow> nat \<Rightarrow> nat list list \<Rightarrow> bool" where
  "shape h w px = (length px = h \<and> list_all (\<lambda>r. length r = w) px)"

definition inside :: "nat \<Rightarrow> nat \<Rightarrow> nat \<times> nat \<Rightarrow> bool" where
  "inside h w t = (fst t < h \<and> snd t < w)"

definition pixel_at :: "nat list list \<Rightarrow> nat \<times> nat \<Rightarrow> nat" where
  "pixel_at px t = px ! fst t ! snd t"

section \<open>Predicates on outcomes\<close>

text \<open>
  \<open>res_sat P r\<close>: the outcome \<open>r\<close>, if the call comes back at all, satisfies \<open>P\<close>, which
  sees the exception (if any) and the state left behind.
\<close>

definition res_sat :: "(error option \<Rightarrow> 's \<Rightarrow> bool) \<Rightarrow> ('a, 's) res \<Rightarrow> bool" where
  "res_sat P r = (case r of Ret u s \<Rightarrow> P None s | Exc err s \<Rightarrow> P (Some err) s | Hang \<Rightarrow> True)"

text \<open>
  The four fatal faults: the fetch outside memory, the return on an empty stack, the
  call on a full stack and the sprite fetch outside memory.
\<close>

definition fatal :: "error \<Rightarrow> bool" where
  "fatal err =
     (case err of
        RuntimeError f \<Rightarrow>
          (case f of
             PCOutOfBounds p \<Rightarrow> True
           | StackUnderflowOnRET \<Rightarrow> True
           | StackOverflowOnCALL \<Rightarrow> True
           | SpriteFetchOutOfBounds \<Rightarrow> True
           | WaitForKeyNoTTY \<Rightarrow> False)
      | _ \<Rightarrow> False)"

definition mild :: "error option \<Rightarrow> bool" where
  "mild err = (case err of Some e \<Rightarrow> \<not> fatal e | None \<Rightarrow> True)"

text \<open>
  \<open>latched s r\<close>: after the outcome \<open>r\<close> of an operation started in \<open>s\<close>, the halted flag
  is set if and only if it was set before or the operation raised a fatal fault.
\<close>

definition latched :: "Chip8 \<Rightarrow> ('a, Chip8) res \<Rightarrow> bool" where
  "latched s r =
     res_sat (\<lambda>err s'. halted s' = (halted s \<or> (case err of Some e \<Rightarrow> fatal e | None \<Rightarrow> False))) r"

definition sp_ok :: "Chip8 \<Rightarrow> bool" where
  "sp_ok s = (0 \<le> sp s \<and> sp s \<le> int STACK_SIZE)"

definition quiet :: "Chip8 \<Rightarrow> error option \<Rightarrow> Chip8 \<Rightarrow> bool" where
  "quiet s err s' = (sp s' = sp s \<and> halted s' = halted s \<and> mild err)"

definition ctl_ok :: "Chip8 \<Rightarrow> error option \<Rightarrow> Chip8 \<Rightarrow> bool" where
  "ctl_ok s err s' =
     (halted s' = (halted s \<or> (case err of Some e \<Rightarrow> fatal e | None \<Rightarrow> False))
      \<and> (sp_ok s \<longrightarrow> sp_ok s'))"

section \<open>Concrete machines\<close>

text \<open>
  The engine as constructed with an empty font table and an empty key map, and a
  terminal that supplies nothing.
\<close>

definition power_on :: "int \<Rightarrow> Chip8" where
  "power_on cycles =
     \<lparr>memory = replicate MEMORY_SIZE 0, V = replicate V_COUNT 0,
      stack = replicate STACK_SIZE 0, sp = 0, pc = 0x200, I = 0, delay_timer = 0,
      config = EmulatorConfig_default cycles,
      display = Display_init SCREEN_WIDTH SCREEN_HEIGHT,
      input_handler = InputHandler_init Map.empty, sound = Sound_init True,
      debug = False, cycles_per_frame = cycles, halted = False, rom_loaded = False\<rparr>"

definition no_input :: env where
  "no_input =
     \<lparr>stdin_isatty = False, stdin_ready = [], stdin_eof = False, stdin_blocking = [],
      rand_bits = 0\<rparr>"

text \<open>
  A four-instruction ROM: \<^verbatim>\<open>6005\<close> (V0 = 5), \<^verbatim>\<open>F015\<close> (delay timer = V0),
  \<^verbatim>\<open>00E0\<close> (clear the display), \<^verbatim>\<open>00EE\<close> (return with an empty stack). The machine
  that has loaded it, and the machine after the frame in which the return faults.
\<close>

definition fault_rom :: "byte list" where
  "fault_rom = [0x60, 0x05, 0xF0, 0x15, 0x00, 0xE0, 0x00, 0xEE]"

definition fault_machine :: Chip8 where
  "fault_machine =
     (power_on 4)\<lparr>memory := (replicate 4096 0)[512 := 0x60, 513 := 0x05, 514 := 0xF0,
        515 := 0x15, 516 := 0x00, 517 := 0xE0, 518 := 0x00, 519 := 0xEE],
        rom_loaded := True\<rparr>"

definition fault_halted :: Chip8 where
  "fault_halted =
     fault_machine\<lparr>pc := 0x208, V := (replicate 16 0)[0 := 5], delay_timer := 5,
        display := clear (display fault_machine), halted := True\<rparr>"

section \<open>Properties\<close>

subsection \<open>Decoding\<close>

lemma and_0FFF: "(opcode::nat) AND 0x0FFF = opcode mod 4096"
  using take_bit_eq_mask [of 12 opcode, symmetric]
  by (simp add: mask_eq_exp_minus_1 take_bit_eq_mod)

lemma and_00FF: "(opcode::nat) AND 0x00FF = opcode mod 256"
  using take_bit_eq_mask [of 8 opcode, symmetric]
  by (simp add: mask_eq_exp_minus_1 take_bit_eq_mod)

lemma and_000F: "(opcode::nat) AND 0x000F = opcode mod 16"
  using take_bit_eq_mask [of 4 opcode, symmetric]
  by (simp add: mask_eq_exp_minus_1 take_bit_eq_mod)

lemma nibble_field:
  "drop_bit k ((opcode::nat) AND push_bit k (mask 4)) = (opcode div 2 ^ k) mod 16"
proof -
  have "drop_bit k (opcode AND push_bit k (mask 4)) = drop_bit k opcode AND mask 4"
    by (simp add: drop_bit_push_bit)
  then show ?thesis
    by (simp add: take_bit_eq_mod drop_bit_eq_div flip: take_bit_eq_mask)
qed

lemma field_x: "drop_bit 8 ((opcode::nat) AND 0x0F00) = (opcode div 256) mod 16"
  using nibble_field [of 8 opcode] by (simp add: mask_eq_exp_minus_1 push_bit_eq_mult)

lemma field_y: "drop_bit 4 ((opcode::nat) AND 0x00F0) = (opcode div 16) mod 16"
  using nibble_field [of 4 opcode] by (simp add: mask_eq_exp_minus_1 push_bit_eq_mult)

lemma field_op: "drop_bit 12 ((opcode::nat) AND 0xF000) = (opcode div 4096) mod 16"
  using nibble_field [of 12 opcode] by (simp add: mask_eq_exp_minus_1 push_bit_eq_mult)

lemma opcode_class:
  assumes "nnn < 0x1000"
  shows "(4096 * c + nnn) div 4096 mod 16 = c mod 16" and "(4096 * c + nnn) mod 4096 = (nnn::nat)"
proof -
  show "(4096 * c + nnn) div 4096 mod 16 = c mod 16"
    using assms by simp
  have "(4096 * c + nnn) mod 4096 = nnn mod 4096"
    by (simp only: mod_mult_self4)
  then show "(4096 * c + nnn) mod 4096 = nnn"
    using assms by simp
qed

lemma decode_2nnn:
  assumes "nnn < 0x1000"
  shows "decode_and_execute e (0x2000 + nnn) s = exec_2 nnn s"
proof -
  have "(0x2000 + nnn) = 4096 * 2 + nnn"
    by simp
  then have "(0x2000 + nnn) div 4096 mod 16 = 2" "(0x2000 + nnn) mod 4096 = nnn"
    using opcode_class [OF assms, of 2] by simp_all
  then show ?thesis
    unfolding decode_and_execute_def and_0FFF field_op Let_def by simp
qed

lemma decode_Bnnn:
  assumes "nnn < 0x1000"
  shows "decode_and_execute e (0xB000 + nnn) s = V_get s 0 (\<lambda>v0. Ret () (s\<lparr>pc := nnn + v0\<rparr>))"
proof -
  have "(0xB000 + nnn) = 4096 * 11 + nnn"
    by simp
  then have "(0xB000 + nnn) div 4096 mod 16 = 11" "(0xB000 + nnn) mod 4096 = nnn"
    using opcode_class [OF assms, of 11] by simp_all
  then show ?thesis
    unfolding decode_and_execute_def and_0FFF field_op Let_def by simp
qed

lemma decode_Fx29:
  assumes "x < 16"
  shows "decode_and_execute e (0xF029 + 0x100 * x) s
           = V_get s x (\<lambda>vx. Ret () (s\<lparr>I := vx * 5\<rparr>))"
proof -
  have a: "(0xF029 + 0x100 * x) div 4096 mod 16 = 15"
    using assms by simp
  have "(x + 240) mod 16 = x mod 16"
    using mod_mult_self2 [of x 16 15] by simp
  moreover have "(0xF029 + 0x100 * x) div 256 = 240 + x"
    by simp
  ultimately have b: "(0xF029 + 0x100 * x) div 256 mod 16 = x"
    using assms by simp
  have "(0xF029 + 0x100 * x) = 41 + 256 * (240 + x)"
    by simp
  then have "(0xF029 + 0x100 * x) mod 256 = 41 mod 256"
    by (simp only: mod_mult_self2)
  then have c: "(0xF029 + 0x100 * x) mod 256 = 0x29"
    by simp
  show ?thesis
    unfolding decode_and_execute_def and_0FFF and_00FF and_000F field_x field_y field_op Let_def
      a b c
    by (simp add: exec_F_def)
qed

lemma decode_00EE: "decode_and_execute e 0x00EE s = exec_0 0x00EE s"
  by (simp add: decode_and_execute_def)

subsection \<open>Construction\<close>

lemma Chip8_init_power_on: "Chip8_init [] Map.empty cycles None = Ret () (power_on cycles)"
  by (simp add: Chip8_init_def load_fontset_def power_on_def EmulatorConfig_default_def
      enumerate_eq_zip)

lemma load_fault_rom: "load_rom (Some fault_rom) (power_on 4) = Ret () fault_machine"
  by (simp add: load_rom_def fault_rom_def fault_machine_def power_on_def MEMORY_SIZE_def
      enumerate_eq_zip upt_rec memory_set_def)

subsection \<open>The ALU group and the flag register\<close>

text \<open>
  C1. The claim: every ALU opcode with a flag writes the data register first and VF last,
  so that VF ends as the flag and the data result is that of the operands before the
  instruction. The source does so for \<^verbatim>\<open>8xy4\<close> only; \<^verbatim>\<open>8xy5\<close>, \<^verbatim>\<open>8xy6\<close>, \<^verbatim>\<open>8xy7\<close>
  and \<^verbatim>\<open>8xyE\<close> write VF first and then read their operands again. Evaluated here:
  \<^verbatim>\<open>80F5\<close> with V0 = 5, VF = 3 leaves V0 = 4 (5 minus the flag, not 5 - 3 = 2);
  \<^verbatim>\<open>8F05\<close> with VF = 5, V0 = 3 leaves VF = 254 (not the flag 1);
  \<^verbatim>\<open>8F06\<close> with VF = 4 leaves VF = 2 (not the shifted-out bit 0).
\<close>

theorem C1_flag_written_before_data:
  "decode_and_execute e 0x80F5 (power_on c\<lparr>V := (replicate 16 0)[0 := 5, 15 := 3]\<rparr>)
     = Ret () (power_on c\<lparr>V := (replicate 16 0)[0 := 4, 15 := 1]\<rparr>)
   \<and> decode_and_execute e 0x8F05 (power_on c\<lparr>V := (replicate 16 0)[0 := 3, 15 := 5]\<rparr>)
     = Ret () (power_on c\<lparr>V := (replicate 16 0)[0 := 3, 15 := 254]\<rparr>)
   \<and> decode_and_execute e 0x8F06 (power_on c\<lparr>V := (replicate 16 0)[15 := 4]\<rparr>)
     = Ret () (power_on c\<lparr>V := (replicate 16 0)[15 := 2]\<rparr>)"
  by (simp add: decode_and_execute_def exec_8_def V_get_def V_set_def power_on_def
      EmulatorConfig_default_def QuirkConfig_default_def list_update_swap)

subsection \<open>Memory accesses through the index register\<close>

text \<open>
  C2. The claim: an access through I that leaves the memory is refused before anything is
  read or written. \<^verbatim>\<open>Dxyn\<close> checks \<open>I + n\<close> first; \<^verbatim>\<open>Fx33\<close>, \<^verbatim>\<open>Fx55\<close> and \<^verbatim>\<open>Fx65\<close> do
  not. Evaluated here: \<^verbatim>\<open>F033\<close> with V0 = 123 and I = 4094 stores the digits 1 and 2 at
  4094 and 4095, and only then raises the array's \<^verbatim>\<open>IndexError\<close>, with the halted flag
  still unset.
\<close>

theorem C2_bcd_store_writes_before_failing:
  "decode_and_execute e 0xF033 (power_on c\<lparr>V := (replicate 16 0)[0 := 123], I := 4094\<rparr>)
     = Exc IndexError
         (power_on c\<lparr>V := (replicate 16 0)[0 := 123], I := 4094,
            memory := (replicate 4096 0)[4094 := 1, 4095 := 2]\<rparr>)
   \<and> \<not> halted (power_on c)"
  by (simp add: decode_and_execute_def exec_F_def V_get_def memory_set_def power_on_def
      MEMORY_SIZE_def)

subsection \<open>The frame in which a fault occurs\<close>

lemma fault_step1:
  "step no_input fault_machine
     = Ret () (fault_machine\<lparr>pc := 0x202, V := (replicate 16 0)[0 := 5]\<rparr>)"
  by (simp add: step_def fault_machine_def power_on_def no_input_def update_keys_def
      fetch_opcode_def MEMORY_SIZE_def V_COUNT_def memory_get_def decode_and_execute_def
      V_set_def)

lemma fault_step2:
  "step no_input (fault_machine\<lparr>pc := 0x202, V := (replicate 16 0)[0 := 5]\<rparr>)
     = Ret () (fault_machine\<lparr>pc := 0x204, V := (replicate 16 0)[0 := 5], delay_timer := 5\<rparr>)"
  by (simp add: step_def fault_machine_def power_on_def no_input_def update_keys_def
      fetch_opcode_def MEMORY_SIZE_def V_COUNT_def memory_get_def decode_and_execute_def
      exec_F_def V_get_def)

lemma fault_step3:
  "step no_input
     (fault_machine\<lparr>pc := 0x204, V := (replicate 16 0)[0 := 5], delay_timer := 5\<rparr>)
     = Ret () (fault_machine\<lparr>pc := 0x206, V := (replicate 16 0)[0 := 5], delay_timer := 5,
                 display := clear (display fault_machine)\<rparr>)"
  by (simp add: step_def fault_machine_def power_on_def no_input_def update_keys_def
      fetch_opcode_def MEMORY_SIZE_def V_COUNT_def memory_get_def decode_and_execute_def
      exec_0_def)

lemma fault_step4:
  "step no_input
     (fault_machine\<lparr>pc := 0x206, V := (replicate 16 0)[0 := 5], delay_timer := 5,
        display := clear (display fault_machine)\<rparr>)
     = Exc (RuntimeError StackUnderflowOnRET) fault_halted"
  by (simp add: step_def fault_halted_def fault_machine_def power_on_def no_input_def
      update_keys_def fetch_opcode_def MEMORY_SIZE_def V_COUNT_def memory_get_def
      decode_and_execute_def exec_0_def)

lemma fault_frame:
  "run_frame (\<lambda>k. no_input) fault_machine = Exc (RuntimeError StackUnderflowOnRET) fault_halted"
proof -
  have c: "cycles_per_frame fault_machine = 4" "\<not> halted fault_machine"
    by (simp_all add: fault_machine_def power_on_def)
  have u: "[0..<nat 4] = [0, 1, 2, 3]"
    by (simp add: upt_rec)
  show ?thesis
    unfolding run_frame_def c u
    by (simp add: c fault_step1 fault_step2 fault_step3 fault_step4)
qed

lemma frame_after_fault:
  "run_frame envs fault_halted
     = Ret () (fault_halted\<lparr>delay_timer := 4,
         display := (clear (display fault_machine))\<lparr>first_render := False, draw_flag := False\<rparr>\<rparr>)"
  by (simp add: run_frame_def present_def update_timers_def render_def clear_def
      Sound_update_def fault_halted_def fault_machine_def power_on_def Sound_init_def)

text \<open>
  C3. The claim: every frame tick, the one in which a fatal fault occurs included, ends
  with one timer tick and one present, and the fault does not leave the frame loop. In
  the source the exception of \<^verbatim>\<open>step\<close> leaves \<^verbatim>\<open>run_frame\<close> before
  \<^verbatim>\<open>update_timers\<close> and \<^verbatim>\<open>render\<close>. Evaluated here on the ROM above with four cycles
  per frame: the frame raises with the delay timer still 5 and the cleared display still
  waiting to be drawn; only a later tick, entered halted, decrements the timer and
  presents.
\<close>

theorem C3_fault_frame_skips_timers_and_present:
  "load_rom (Some fault_rom) (power_on 4) = Ret () fault_machine
   \<and> run_frame (\<lambda>k. no_input) fault_machine
       = Exc (RuntimeError StackUnderflowOnRET) fault_halted
   \<and> halted fault_halted
   \<and> delay_timer fault_halted = 5
   \<and> draw_flag (display fault_halted)
   \<and> (case run_frame envs fault_halted of
         Ret u s \<Rightarrow> delay_timer s = 4 \<and> \<not> draw_flag (display s)
       | Exc err s \<Rightarrow> False
       | Hang \<Rightarrow> False)"
proof -
  have "halted fault_halted" "delay_timer fault_halted = 5" "draw_flag (display fault_halted)"
    by (simp_all add: fault_halted_def clear_def)
  then show ?thesis
    by (simp add: load_fault_rom fault_frame frame_after_fault)
qed


subsection \<open>Control state across an instruction\<close>

lemma res_sat_simps [simp]:
  "res_sat P (Ret u s) = P None s" "res_sat P (Exc err s) = P (Some err) s" "res_sat P Hang = True"
  by (simp_all add: res_sat_def)

lemma res_sat_mono: "res_sat P r \<Longrightarrow> (\<And>err s. P err s \<Longrightarrow> Q err s) \<Longrightarrow> res_sat Q r"
  by (cases r) simp_all

lemma fatal_simps [simp]:
  "fatal (RuntimeError (PCOutOfBounds p))" "fatal (RuntimeError StackUnderflowOnRET)"
  "fatal (RuntimeError StackOverflowOnCALL)" "fatal (RuntimeError SpriteFetchOutOfBounds)"
  "\<not> fatal (RuntimeError WaitForKeyNoTTY)" "\<not> fatal IndexError" "\<not> fatal OverflowError"
  "\<not> fatal ValueError" "\<not> fatal ZeroDivisionError" "\<not> fatal FileNotFoundError"
  "\<not> fatal KeyboardInterrupt"
  by (simp_all add: fatal_def)

lemma quiet_exec_8: "res_sat (quiet s) (exec_8 x y n s)"
  by (simp add: exec_8_def V_get_def V_set_def Let_def quiet_def mild_def)

lemma quiet_exec_E: "res_sat (quiet s) (exec_E x nn s)"
  by (simp add: exec_E_def V_get_def quiet_def mild_def split: option.split)

lemma quiet_store_regs: "res_sat (quiet s) (store_regs is s)"
proof (induction "is" arbitrary: s)
  case Nil
  then show ?case by (simp add: quiet_def mild_def)
next
  case (Cons i rest)
  show ?case
    using Cons.IH [of "s\<lparr>memory := (memory s)[I s + i := of_nat (unat (V s ! i))]\<rparr>"]
    by (simp add: V_get_def memory_set_def quiet_def mild_def)
qed

lemma quiet_load_regs: "res_sat (quiet s) (load_regs is s)"
proof (induction "is" arbitrary: s)
  case Nil
  then show ?case by (simp add: quiet_def mild_def)
next
  case (Cons i rest)
  show ?case
    using Cons.IH [of "s\<lparr>V := (V s)[i := of_nat (unat (memory s ! (I s + i)))]\<rparr>"]
    by (simp add: V_set_def memory_get_def quiet_def mild_def)
qed

lemma quiet_wait_read: "res_sat (\<lambda>err ih'. case err of Some e \<Rightarrow> \<not> fatal e | None \<Rightarrow> True) (wait_read ks ih)"
  by (induction ks arbitrary: ih) (simp_all split: option.split)

lemma quiet_exec_F: "res_sat (quiet s) (exec_F e x nn s)"
proof -
  have a: "res_sat (quiet s) (store_regs [0..<x + 1] s)"
    by (rule quiet_store_regs)
  have b: "res_sat (quiet s) (load_regs [0..<x + 1] s)"
    by (rule quiet_load_regs)
  have c: "res_sat (\<lambda>err ih'. case err of Some e \<Rightarrow> \<not> fatal e | None \<Rightarrow> True) (wait_for_key e (input_handler s))"
    using quiet_wait_read by (simp add: wait_for_key_def)
  show ?thesis
    using a b c
    by (simp add: exec_F_def V_get_def V_set_def memory_set_def Let_def res_sat_def quiet_def mild_def
        split: res.splits)
qed


lemma quiet_ctl_ok: "res_sat (quiet s) r \<Longrightarrow> res_sat (ctl_ok s) r"
  by (cases r) (auto simp: quiet_def mild_def ctl_ok_def sp_ok_def split: option.splits)

lemma mild_draw_cols: "res_sat (\<lambda>err d'. mild err) (draw_cols wrap x yy b cols c d)"
  by (induction wrap x yy b cols c d rule: draw_cols.induct) (simp_all add: mild_def Let_def)

lemma mild_draw_rows: "res_sat (\<lambda>err d'. mild err) (draw_rows wrap x y sprite rows c d)"
proof (induction wrap x y sprite rows c d rule: draw_rows.induct)
  case (1 wrap x y sprite collision d)
  then show ?case by (simp add: mild_def)
next
  case (2 wrap x y sprite row rows collision d)
  show ?case
    using 2 mild_draw_cols [of wrap x "if wrap then (y + row) mod height d else y + row" "sprite ! row" "[0..<8]" collision d]
    by (auto simp add: mild_def Let_def simp del: draw_cols.simps split: res.splits)
qed

lemma mild_draw_sprite: "res_sat (\<lambda>err d'. mild err) (draw_sprite d x y sprite h wrap)"
  using mild_draw_rows [of wrap x y sprite "[0..<h]" False d]
  by (cases "draw_rows wrap x y sprite [0..<h] False d") (simp_all add: draw_sprite_def mild_def)

lemma mild_Exc: "res_sat (\<lambda>err d'. mild err) r \<Longrightarrow> r = Exc e d' \<Longrightarrow> \<not> fatal e"
  by (simp add: mild_def)

lemma ctl_exec_D: "res_sat (ctl_ok s) (exec_D x y n s)"
proof -
  have "\<not> fatal err" if "draw_sprite (display s) vx vy sprite n w = Exc err d'"
    for vx vy sprite w err d'
    using mild_Exc [OF mild_draw_sprite that] .
  then show ?thesis
    by (auto simp add: exec_D_def V_get_def V_set_def ctl_ok_def sp_ok_def
        split: option.split res.split)
qed

lemma ctl_exec_0: "res_sat (ctl_ok s) (exec_0 opcode s)"
  by (auto simp add: exec_0_def stack_get_def ctl_ok_def sp_ok_def Let_def split: option.split)

lemma ctl_exec_2: "res_sat (ctl_ok s) (exec_2 nnn s)"
  by (auto simp add: exec_2_def stack_set_def ctl_ok_def sp_ok_def Let_def split: option.split)

lemmas ctl_exec = ctl_exec_0 ctl_exec_2 ctl_exec_D quiet_exec_8 [THEN quiet_ctl_ok]
  quiet_exec_E [THEN quiet_ctl_ok] quiet_exec_F [THEN quiet_ctl_ok]

lemma ctl_decode: "res_sat (ctl_ok s) (decode_and_execute e opcode s)"
proof -
  have r: "ctl_ok s None (s\<lparr>pc := p\<rparr>)" "ctl_ok s None (s\<lparr>I := i\<rparr>)" "ctl_ok s None s"
    "ctl_ok s None (s\<lparr>V := vs\<rparr>)" "ctl_ok s (Some IndexError) s" "ctl_ok s (Some OverflowError) s"
    for p i vs
    by (simp_all add: ctl_ok_def sp_ok_def)
  show ?thesis
    unfolding decode_and_execute_def Let_def
    by (simp add: ctl_exec r V_get_def V_set_def)
qed


subsection \<open>The jump with offset\<close>

text \<open>
  C10. Whatever the quirk record \<open>q\<close> and whatever the setting \<open>b\<close> of its
  \<^verbatim>\<open>jump_with_v0_quirk\<close> flag, \<^verbatim>\<open>Bnnn\<close> sets the program counter to \<open>nnn + V0\<close> and
  changes nothing else: the flag is never read.
\<close>

theorem C10_jump_ignores_quirk:
  assumes "nnn < 0x1000" and "length (V s) = V_COUNT"
  shows "decode_and_execute e (0xB000 + nnn)
           (s\<lparr>config := (config s)\<lparr>quirks := q\<lparr>jump_with_v0_quirk := b\<rparr>\<rparr>\<rparr>)
         = Ret () (s\<lparr>config := (config s)\<lparr>quirks := q\<lparr>jump_with_v0_quirk := b\<rparr>\<rparr>,
                     pc := nnn + unat (V s ! 0)\<rparr>)"
  using assms by (simp add: decode_Bnnn V_get_def V_COUNT_def)

theorem C10_jump_ignores_quirk_witness:
  "(0x123::nat) < 0x1000 \<and> length (V (power_on 700)) = V_COUNT \<and>
   decode_and_execute no_input (0xB000 + 0x123)
      ((power_on 700)\<lparr>config := (config (power_on 700))
          \<lparr>quirks := QuirkConfig_default\<lparr>jump_with_v0_quirk := True\<rparr>\<rparr>\<rparr>)
    = Ret () ((power_on 700)\<lparr>config := (config (power_on 700))
          \<lparr>quirks := QuirkConfig_default\<lparr>jump_with_v0_quirk := True\<rparr>\<rparr>,
          pc := 0x123 + unat (V (power_on 700) ! 0)\<rparr>)"
  using C10_jump_ignores_quirk [where nnn = "0x123" and s = "power_on 700" and e = no_input
      and q = QuirkConfig_default and b = True]
  by (simp add: power_on_def V_COUNT_def)

subsection \<open>The font glyph address\<close>

text \<open>
  C8, as amended. \<^verbatim>\<open>Fx29\<close> sets I to \<open>Vx * 5\<close>, without reducing Vx to its low nibble;
  that is the glyph address \<open>(Vx mod 16) * 5\<close> exactly when \<open>Vx < 16\<close>.
\<close>

theorem C8_font_address:
  assumes "x < 16" and "length (V s) = V_COUNT"
  shows "decode_and_execute e (0xF029 + 0x100 * x) s = Ret () (s\<lparr>I := unat (V s ! x) * 5\<rparr>)
       \<and> (unat (V s ! x) * 5 = (unat (V s ! x) mod 16) * 5 \<longleftrightarrow> unat (V s ! x) < 16)"
proof -
  have "unat (V s ! x) * 5 = (unat (V s ! x) mod 16) * 5 \<longleftrightarrow> unat (V s ! x) < 16"
    by (metis mod_less mod_less_divisor mult_cancel2 zero_less_numeral zero_neq_numeral)
  then show ?thesis
    using assms by (simp add: decode_Fx29 V_get_def V_COUNT_def)
qed

theorem C8_font_address_witness:
  "(0::nat) < 16 \<and> length (V ((power_on 700)\<lparr>V := (replicate 16 0)[0 := 7]\<rparr>)) = V_COUNT
   \<and> decode_and_execute no_input (0xF029 + 0x100 * 0)
        ((power_on 700)\<lparr>V := (replicate 16 0)[0 := 7]\<rparr>)
      = Ret () ((power_on 700)\<lparr>V := (replicate 16 0)[0 := 7], I := 35\<rparr>)"
  using C8_font_address [where x = 0 and s = "(power_on 700)\<lparr>V := (replicate 16 0)[0 := 7]\<rparr>"
      and e = no_input]
  by (simp add: V_COUNT_def)

text \<open>
  The claim as stated, \<open>I = (Vx mod 16) * 5\<close> for every Vx, fails at \<open>Vx = 16\<close>:
  \<^verbatim>\<open>F029\<close> leaves \<open>I = 80\<close>, not 0.
\<close>

theorem C8_counterexample:
  "map_option I (state_of (decode_and_execute no_input 0xF029
       ((power_on 700)\<lparr>V := (replicate 16 0)[0 := 16]\<rparr>))) = Some 80
   \<and> (80::nat) \<noteq> (16 mod 16) * 5"
  by (simp add: decode_and_execute_def exec_F_def V_get_def power_on_def state_of_def)


subsection \<open>Control state across a step and a frame\<close>

lemma ctl_ok_refl: "ctl_ok s None s"
  by (simp add: ctl_ok_def)

lemma ctl_ok_trans: "ctl_ok s None s1 \<Longrightarrow> ctl_ok s1 err s2 \<Longrightarrow> ctl_ok s err s2"
  by (auto simp: ctl_ok_def)

lemma res_sat_ctl_trans:
  "ctl_ok s None s1 \<Longrightarrow> res_sat (ctl_ok s1) r \<Longrightarrow> res_sat (ctl_ok s) r"
  by (cases r) (auto intro: ctl_ok_trans)

lemma mild_read_ready: "res_sat (\<lambda>err ih'. mild err) (read_ready ks eof ih)"
  by (induction ks arbitrary: ih) (simp_all add: mild_def split: option.split)

lemma mild_update_keys: "res_sat (\<lambda>err ih'. mild err) (update_keys e ih)"
  using mild_read_ready by (simp add: update_keys_def mild_def)

lemma ctl_fetch_opcode: "res_sat (ctl_ok s) (fetch_opcode s)"
  by (simp add: fetch_opcode_def memory_get_def ctl_ok_def sp_ok_def)

lemma ctl_step: "res_sat (ctl_ok s) (step e s)"
proof (cases "halted s")
  case True
  then show ?thesis by (simp add: step_def ctl_ok_def)
next
  case False
  show ?thesis
  proof (cases "update_keys e (input_handler s)")
    case (Ret u ih)
    have k: "ctl_ok s None (s\<lparr>input_handler := ih\<rparr>)"
      by (simp add: ctl_ok_def sp_ok_def)
    show ?thesis
    proof (cases "fetch_opcode (s\<lparr>input_handler := ih\<rparr>)")
      case (Ret opcode s1)
      then have "ctl_ok (s\<lparr>input_handler := ih\<rparr>) None s1"
        using ctl_fetch_opcode [of "s\<lparr>input_handler := ih\<rparr>"] by simp
      then have "ctl_ok s None s1"
        using k ctl_ok_trans by blast
      then have "res_sat (ctl_ok s) (decode_and_execute e opcode s1)"
        using ctl_decode res_sat_ctl_trans by blast
      then show ?thesis
        using False \<open>update_keys e (input_handler s) = Ret u ih\<close> Ret by (simp add: step_def)
    next
      case (Exc err s1)
      then have "ctl_ok (s\<lparr>input_handler := ih\<rparr>) (Some err) s1"
        using ctl_fetch_opcode [of "s\<lparr>input_handler := ih\<rparr>"] by simp
      then have "ctl_ok s (Some err) s1"
        using k ctl_ok_trans by blast
      then show ?thesis
        using False \<open>update_keys e (input_handler s) = Ret u ih\<close> Exc by (simp add: step_def)
    next
      case Hang
      then show ?thesis
        using False \<open>update_keys e (input_handler s) = Ret u ih\<close> by (simp add: step_def)
    qed
  next
    case (Exc err ih)
    then have "mild (Some err)"
      using mild_update_keys [of e "input_handler s"] by simp
    then show ?thesis
      using False Exc by (simp add: step_def ctl_ok_def sp_ok_def mild_def)
  next
    case Hang
    then show ?thesis using False by (simp add: step_def)
  qed
qed

lemma ctl_run_cycles: "res_sat (ctl_ok s) (run_cycles envs ks s)"
proof (induction ks arbitrary: s)
  case Nil
  then show ?case by (simp add: ctl_ok_refl)
next
  case (Cons k rest)
  show ?case
  proof (cases "step (envs k) s")
    case (Ret u s1)
    then have "ctl_ok s None s1"
      using ctl_step [of s "envs k"] by simp
    then have "res_sat (ctl_ok s) (run_cycles envs rest s1)"
      using Cons.IH res_sat_ctl_trans by blast
    then show ?thesis
      using Ret by (simp add: ctl_ok_refl)
  next
    case (Exc err s1)
    then show ?thesis
      using ctl_step [of s "envs k"] by (simp add: ctl_ok_refl)
  next
    case Hang
    then show ?thesis by (simp add: ctl_ok_refl)
  qed
qed

lemma ctl_tick: "ctl_ok s None (present (update_timers s))"
  by (simp add: ctl_ok_def sp_ok_def present_def update_timers_def Let_def)

lemma ctl_run_frame: "res_sat (ctl_ok s) (run_frame envs s)"
proof (cases "run_cycles envs [0..<nat (cycles_per_frame s)] s")
  case (Ret u s1)
  then have "ctl_ok s None s1"
    using ctl_run_cycles [of s envs "[0..<nat (cycles_per_frame s)]"] by simp
  then have "ctl_ok s None (present (update_timers s1))"
    using ctl_tick ctl_ok_trans by blast
  then show ?thesis
    using Ret ctl_tick by (simp add: run_frame_def)
next
  case (Exc err s1)
  then show ?thesis
    using ctl_run_cycles [of s envs "[0..<nat (cycles_per_frame s)]"] ctl_tick
    by (simp add: run_frame_def)
next
  case Hang
  then show ?thesis using ctl_tick by (simp add: run_frame_def)
qed

lemma ctl_latched: "res_sat (ctl_ok s) r \<Longrightarrow> latched s r"
  unfolding latched_def by (erule res_sat_mono) (simp add: ctl_ok_def)

lemma ctl_sp_ok: "res_sat (ctl_ok s) r \<Longrightarrow> sp_ok s \<Longrightarrow> res_sat (\<lambda>err. sp_ok) r"
  by (erule res_sat_mono) (simp add: ctl_ok_def)


subsection \<open>Call and return\<close>

lemma call_ok:
  assumes "length (stack s) = STACK_SIZE" "0 \<le> sp s" "sp s < 16" "pc s \<le> 0xFFFF" "nnn < 0x1000"
  shows "decode_and_execute e (0x2000 + nnn) s
           = Ret () (s\<lparr>stack := (stack s)[nat (sp s) := of_nat (pc s)], sp := sp s + 1, pc := nnn\<rparr>)"
  using assms by (simp add: decode_2nnn exec_2_def stack_set_def py_index_def STACK_SIZE_def)

lemma call_overflow:
  assumes "sp s \<ge> 16" "nnn < 0x1000"
  shows "decode_and_execute e (0x2000 + nnn) s
           = Exc (RuntimeError StackOverflowOnCALL) (s\<lparr>halted := True\<rparr>)"
  using assms by (simp add: decode_2nnn exec_2_def STACK_SIZE_def)

lemma ret_underflow:
  assumes "sp s = 0"
  shows "decode_and_execute e 0x00EE s = Exc (RuntimeError StackUnderflowOnRET) (s\<lparr>halted := True\<rparr>)"
  using assms by (simp add: decode_00EE exec_0_def)

lemma ret_ok:
  assumes "length (stack s) = STACK_SIZE" "0 < sp s" "sp s \<le> 16"
  shows "decode_and_execute e 0x00EE s
           = Ret () (s\<lparr>sp := sp s - 1, pc := unat (stack s ! nat (sp s - 1))\<rparr>)"
  using assms by (simp add: decode_00EE exec_0_def stack_get_def py_index_def STACK_SIZE_def Let_def)

lemma call_then_ret:
  assumes "length (stack s) = STACK_SIZE" "0 \<le> sp s" "sp s < 16" "pc s \<le> 0xFFFF" "nnn < 0x1000"
  shows "decode_and_execute e' 0x00EE
           (s\<lparr>stack := (stack s)[nat (sp s) := of_nat (pc s)], sp := sp s + 1, pc := nnn\<rparr>)
         = Ret () (s\<lparr>stack := (stack s)[nat (sp s) := of_nat (pc s)], sp := sp s, pc := pc s\<rparr>)"
proof -
  have "unat (word_of_nat (pc s) :: u16) = pc s"
    using assms(4) by (simp add: unat_of_nat)
  moreover have "nat (sp s) < length (stack s)"
    using assms by (simp add: STACK_SIZE_def)
  ultimately show ?thesis
    using assms by (simp add: decode_00EE exec_0_def stack_get_def py_index_def STACK_SIZE_def Let_def)
qed

lemma nested_calls:
  assumes "length (stack s) = STACK_SIZE" "0 \<le> sp s" "sp s + int (length ns) \<le> 16"
    "pc s \<le> 0xFFFF" "\<forall>n\<in>set ns. n < 0x1000"
  shows "\<exists>s'. exec_all e (map (\<lambda>n. 0x2000 + n) ns) s = Ret () s'
           \<and> sp s' = sp s + int (length ns) \<and> length (stack s') = STACK_SIZE
           \<and> halted s' = halted s"
  using assms
proof (induction ns arbitrary: s)
  case Nil
  then show ?case by simp
next
  case (Cons n ns)
  let ?s1 = "s\<lparr>stack := (stack s)[nat (sp s) := of_nat (pc s)], sp := sp s + 1, pc := n\<rparr>"
  have c: "decode_and_execute e (0x2000 + n) s = Ret () ?s1"
    using Cons.prems by (intro call_ok) simp_all
  have "\<exists>s'. exec_all e (map (\<lambda>n. 0x2000 + n) ns) ?s1 = Ret () s'
           \<and> sp s' = sp ?s1 + int (length ns) \<and> length (stack s') = STACK_SIZE
           \<and> halted s' = halted ?s1"
    using Cons.prems by (intro Cons.IH) simp_all
  then show ?case
    using c by auto
qed

lemma exec_all_append:
  "exec_all e (xs @ ys) s =
     (case exec_all e xs s of Ret u s' \<Rightarrow> exec_all e ys s' | Exc err s' \<Rightarrow> Exc err s' | Hang \<Rightarrow> Hang)"
  by (induction xs arbitrary: s) (simp_all split: res.split)


text \<open>
  C5. With a stack of 16 entries, a stack pointer within \<open>0..16\<close> and a program counter
  that fits a stack entry: a call with the stack pointer below 16 stores the program
  counter, increments the pointer and jumps, and the return that follows restores both;
  a call at 16 raises the overflow fault and sets halted; a return at 0 raises the
  underflow fault and sets halted, and otherwise pops; sixteen calls in a row from an
  empty stack succeed and a seventeenth raises the overflow fault; and no instruction,
  step or frame takes the stack pointer outside \<open>0..16\<close>.
\<close>

theorem C5_call_return_stack:
  assumes "length (stack s) = STACK_SIZE" and "sp_ok s" and "pc s \<le> 0xFFFF"
    and "nnn < 0x1000" and "length ns = 16" and "list_all (\<lambda>n. n < 0x1000) ns"
  shows
    "(sp s < 16 \<longrightarrow>
        decode_and_execute e (0x2000 + nnn) s
          = Ret () (s\<lparr>stack := (stack s)[nat (sp s) := of_nat (pc s)], sp := sp s + 1, pc := nnn\<rparr>)
        \<and> decode_and_execute e 0x00EE
            (s\<lparr>stack := (stack s)[nat (sp s) := of_nat (pc s)], sp := sp s + 1, pc := nnn\<rparr>)
          = Ret () (s\<lparr>stack := (stack s)[nat (sp s) := of_nat (pc s)], sp := sp s, pc := pc s\<rparr>))
     \<and> (sp s = 16 \<longrightarrow>
        decode_and_execute e (0x2000 + nnn) s
          = Exc (RuntimeError StackOverflowOnCALL) (s\<lparr>halted := True\<rparr>))
     \<and> (sp s = 0 \<longrightarrow>
        decode_and_execute e 0x00EE s
          = Exc (RuntimeError StackUnderflowOnRET) (s\<lparr>halted := True\<rparr>))
     \<and> (0 < sp s \<longrightarrow>
        decode_and_execute e 0x00EE s
          = Ret () (s\<lparr>sp := sp s - 1, pc := unat (stack s ! nat (sp s - 1))\<rparr>))
     \<and> (sp s = 0 \<longrightarrow>
        (case exec_all e (map (\<lambda>n. 0x2000 + n) ns) s of
           Ret u s' \<Rightarrow> sp s' = 16 \<and> halted s' = halted s
         | Exc err s' \<Rightarrow> False
         | Hang \<Rightarrow> False)
        \<and> (case exec_all e (map (\<lambda>n. 0x2000 + n) (ns @ [nnn])) s of
           Ret u s' \<Rightarrow> False
         | Exc err s' \<Rightarrow> err = RuntimeError StackOverflowOnCALL \<and> halted s' \<and> sp s' = 16
         | Hang \<Rightarrow> False))
     \<and> res_sat (\<lambda>err. sp_ok) (decode_and_execute e opcode s)
     \<and> res_sat (\<lambda>err. sp_ok) (step e s)
     \<and> res_sat (\<lambda>err. sp_ok) (run_frame envs s)"
proof -
  have sp: "0 \<le> sp s" "sp s \<le> 16"
    using assms(2) by (simp_all add: sp_ok_def STACK_SIZE_def)
  have a: "sp s < 16 \<longrightarrow>
        decode_and_execute e (0x2000 + nnn) s
          = Ret () (s\<lparr>stack := (stack s)[nat (sp s) := of_nat (pc s)], sp := sp s + 1, pc := nnn\<rparr>)
        \<and> decode_and_execute e 0x00EE
            (s\<lparr>stack := (stack s)[nat (sp s) := of_nat (pc s)], sp := sp s + 1, pc := nnn\<rparr>)
          = Ret () (s\<lparr>stack := (stack s)[nat (sp s) := of_nat (pc s)], sp := sp s, pc := pc s\<rparr>)"
    using call_ok [OF assms(1) sp(1) _ assms(3,4)] call_then_ret [OF assms(1) sp(1) _ assms(3,4)]
    by blast
  have b: "sp s = 16 \<longrightarrow>
        decode_and_execute e (0x2000 + nnn) s
          = Exc (RuntimeError StackOverflowOnCALL) (s\<lparr>halted := True\<rparr>)"
    using call_overflow [of s nnn e] assms(4) by simp
  have c: "sp s = 0 \<longrightarrow>
        decode_and_execute e 0x00EE s
          = Exc (RuntimeError StackUnderflowOnRET) (s\<lparr>halted := True\<rparr>)"
    using ret_underflow by blast
  have d: "0 < sp s \<longrightarrow>
        decode_and_execute e 0x00EE s
          = Ret () (s\<lparr>sp := sp s - 1, pc := unat (stack s ! nat (sp s - 1))\<rparr>)"
    using ret_ok [OF assms(1) _ sp(2)] by blast
  have f: "(case exec_all e (map (\<lambda>n. 0x2000 + n) ns) s of
           Ret u s' \<Rightarrow> sp s' = 16 \<and> halted s' = halted s
         | Exc err s' \<Rightarrow> False
         | Hang \<Rightarrow> False)
        \<and> (case exec_all e (map (\<lambda>n. 0x2000 + n) (ns @ [nnn])) s of
           Ret u s' \<Rightarrow> False
         | Exc err s' \<Rightarrow> err = RuntimeError StackOverflowOnCALL \<and> halted s' \<and> sp s' = 16
         | Hang \<Rightarrow> False)" if z: "sp s = 0"
  proof -
    have "\<forall>n\<in>set ns. n < 0x1000"
      using assms(6) by (simp add: list_all_iff)
    then obtain s' where s': "exec_all e (map (\<lambda>n. 0x2000 + n) ns) s = Ret () s'"
      "sp s' = 16" "halted s' = halted s"
      using nested_calls [OF assms(1) sp(1) _ assms(3), of ns e] assms(5) z by auto
    have "decode_and_execute e (0x2000 + nnn) s'
          = Exc (RuntimeError StackOverflowOnCALL) (s'\<lparr>halted := True\<rparr>)"
      using call_overflow [of s' nnn e] assms(4) s'(2) by simp
    then show ?thesis
      using s' by (simp add: exec_all_append)
  qed
  have g: "res_sat (\<lambda>err. sp_ok) (decode_and_execute e opcode s)"
    "res_sat (\<lambda>err. sp_ok) (step e s)" "res_sat (\<lambda>err. sp_ok) (run_frame envs s)"
    using assms(2) ctl_decode ctl_step ctl_run_frame ctl_sp_ok by blast+
  show ?thesis
    using a b c d f g by blast
qed


theorem C5_call_return_stack_witness:
  "length (stack (power_on 700)) = STACK_SIZE \<and> sp_ok (power_on 700)
   \<and> pc (power_on 700) \<le> 0xFFFF \<and> (0x300::nat) < 0x1000
   \<and> length (replicate 16 (0x300::nat)) = 16
   \<and> list_all (\<lambda>n. n < 0x1000) (replicate 16 (0x300::nat))
   \<and> sp (power_on 700) = 0
   \<and> decode_and_execute no_input (0x2000 + 0x300) (power_on 700)
       = Ret () ((power_on 700)\<lparr>stack := (stack (power_on 700))[0 := 0x200], sp := 1, pc := 0x300\<rparr>)
   \<and> decode_and_execute no_input 0x00EE (power_on 700)
       = Exc (RuntimeError StackUnderflowOnRET) ((power_on 700)\<lparr>halted := True\<rparr>)
   \<and> (case exec_all no_input (map (\<lambda>n. 0x2000 + n) (replicate 16 0x300 @ [0x300])) (power_on 700) of
         Ret u s' \<Rightarrow> False
       | Exc err s' \<Rightarrow> err = RuntimeError StackOverflowOnCALL \<and> halted s' \<and> sp s' = 16
       | Hang \<Rightarrow> False)
   \<and> sp_ok ((power_on 700)\<lparr>sp := 16\<rparr>)
   \<and> decode_and_execute no_input (0x2000 + 0x300) ((power_on 700)\<lparr>sp := 16\<rparr>)
       = Exc (RuntimeError StackOverflowOnCALL) ((power_on 700)\<lparr>sp := 16, halted := True\<rparr>)
   \<and> decode_and_execute no_input 0x00EE ((power_on 700)\<lparr>sp := 16\<rparr>)
       = Ret () ((power_on 700)\<lparr>sp := 15, pc := 0\<rparr>)"
proof -
  have h: "length (stack (power_on 700)) = STACK_SIZE" "sp_ok (power_on 700)"
    "pc (power_on 700) \<le> 0xFFFF" "(0x300::nat) < 0x1000" "length (replicate 16 (0x300::nat)) = 16"
    "list_all (\<lambda>n. n < 0x1000) (replicate 16 (0x300::nat))" "sp (power_on 700) = 0"
    by (simp_all add: power_on_def sp_ok_def STACK_SIZE_def list_all_iff)
  have k: "length (stack ((power_on 700)\<lparr>sp := 16\<rparr>)) = STACK_SIZE"
    "sp_ok ((power_on 700)\<lparr>sp := 16\<rparr>)" "pc ((power_on 700)\<lparr>sp := 16\<rparr>) \<le> 0xFFFF"
    by (simp_all add: power_on_def sp_ok_def STACK_SIZE_def)
  have v: "unat (stack (power_on 700) ! 15) = 0" "word_of_nat (pc (power_on 700)) = (0x200 :: u16)"
    by (simp_all add: power_on_def STACK_SIZE_def)
  show ?thesis
    using h k v
      C5_call_return_stack [OF h(1,2,3,4,5,6), of no_input]
      C5_call_return_stack [OF k(1,2,3) h(4,5,6), of no_input]
    by simp
qed



subsection \<open>The halted flag\<close>

lemma quiet_write_bytes: "res_sat (quiet s) (write_bytes bs base s)"
proof (induction bs arbitrary: s)
  case Nil
  then show ?case by (simp add: quiet_def mild_def)
next
  case (Cons ib rest)
  obtain i b where ib: "ib = (i, b)"
    by (cases ib)
  show ?case
    using Cons.IH [of "s\<lparr>memory := (memory s)[base + i := of_nat (unat b)]\<rparr>"]
    by (simp add: ib memory_set_def quiet_def mild_def)
qed

lemma quiet_zero_regs: "res_sat (quiet s) (zero_regs is s)"
proof (induction "is" arbitrary: s)
  case Nil
  then show ?case by (simp add: quiet_def mild_def)
next
  case (Cons i rest)
  show ?case
    using Cons.IH [of "s\<lparr>V := (V s)[i := 0]\<rparr>"]
    by (simp add: V_set_def quiet_def mild_def)
qed

lemma init_not_halted: "res_sat (\<lambda>err s0. err = None \<longrightarrow> \<not> halted s0) (Chip8_init fontset km cycles cfg)"
proof -
  let ?s = "\<lparr>memory = replicate MEMORY_SIZE 0, V = replicate V_COUNT 0,
         stack = replicate STACK_SIZE 0, sp = 0, pc = 0x200, I = 0, delay_timer = 0,
         config = (case cfg of Some c \<Rightarrow> c | None \<Rightarrow> EmulatorConfig_default cycles),
         display = Display_init SCREEN_WIDTH SCREEN_HEIGHT,
         input_handler = InputHandler_init km,
         sound = Sound_init (sound_enabled (case cfg of Some c \<Rightarrow> c | None \<Rightarrow> EmulatorConfig_default cycles)),
         debug = cfg_debug (case cfg of Some c \<Rightarrow> c | None \<Rightarrow> EmulatorConfig_default cycles),
         cycles_per_frame = cfg_cycles_per_frame (case cfg of Some c \<Rightarrow> c | None \<Rightarrow> EmulatorConfig_default cycles),
         halted = False, rom_loaded = False\<rparr>"
  have "res_sat (quiet ?s) (write_bytes (enumerate 0 fontset) 0 ?s)"
    by (rule quiet_write_bytes)
  then show ?thesis
    unfolding Chip8_init_def load_fontset_def Let_def
    by (cases "write_bytes (enumerate 0 fontset) 0 ?s") (simp_all add: quiet_def)
qed

lemma reset_halted:
  "res_sat (\<lambda>err s'. if err = None then \<not> halted s' else halted s' = halted s \<and> mild err) (reset s)"
  using quiet_zero_regs [of s "[0..<V_COUNT]"]
  by (cases "zero_regs [0..<V_COUNT] s") (simp_all add: reset_def quiet_def)

lemma load_rom_halted:
  "res_sat (\<lambda>err s'. if err = None then \<not> halted s' else halted s' = halted s \<and> mild err)
     (load_rom file s)"
proof (cases "file")
  case None
  then show ?thesis by (simp add: load_rom_def mild_def)
next
  case (Some rom)
  show ?thesis
    using quiet_write_bytes [of s "enumerate 0 rom" "0x200"]
    by (cases "write_bytes (enumerate 0 rom) 0x200 s")
       (simp_all add: Some load_rom_def quiet_def mild_def)
qed

lemma load_state_latched: "latched s (load_state le file s)"
  by (simp add: load_state_def latched_def Let_def split: option.split)


text \<open>
  C9, as amended. The constructor leaves halted unset. After a fetch, an instruction, a
  step, a frame or a snapshot load, halted is set if and only if it was set before or
  the operation raised one of the four fatal faults; the timer tick keeps it. While it
  is set, \<^verbatim>\<open>step\<close> returns the state unchanged. It is unset by a successful
  \<^verbatim>\<open>reset\<close> and by a successful \<^verbatim>\<open>load_rom\<close>, which leave it alone when they raise.
\<close>

theorem C9_halted_latch:
  "res_sat (\<lambda>err s0. err = None \<longrightarrow> \<not> halted s0) (Chip8_init fontset km cycles cfg)
   \<and> latched s (fetch_opcode s)
   \<and> latched s (decode_and_execute e opcode s)
   \<and> latched s (step e s)
   \<and> latched s (run_frame envs s)
   \<and> latched s (load_state le snapshot s)
   \<and> halted (update_timers s) = halted s
   \<and> (halted s \<longrightarrow> step e s = Ret () s)
   \<and> res_sat (\<lambda>err s'. if err = None then \<not> halted s' else halted s' = halted s \<and> mild err)
        (reset s)
   \<and> res_sat (\<lambda>err s'. if err = None then \<not> halted s' else halted s' = halted s \<and> mild err)
        (load_rom rom s)"
proof -
  have "latched s (fetch_opcode s)" "latched s (decode_and_execute e opcode s)"
    "latched s (step e s)" "latched s (run_frame envs s)"
    using ctl_fetch_opcode ctl_decode ctl_step ctl_run_frame ctl_latched by blast+
  moreover have "halted (update_timers s) = halted s"
    by (simp add: update_timers_def Let_def)
  moreover have "halted s \<longrightarrow> step e s = Ret () s"
    by (simp add: step_def)
  ultimately show ?thesis
    using init_not_halted load_state_latched reset_halted load_rom_halted by blast
qed

theorem C9_halted_latch_witness:
  "halted fault_halted \<and> step no_input fault_halted = Ret () fault_halted
   \<and> Chip8_init [] Map.empty 700 None = Ret () (power_on 700) \<and> \<not> halted (power_on 700)"
  using C9_halted_latch [where s = fault_halted and e = no_input and fontset = "[]"
      and km = Map.empty and cycles = 700 and cfg = None]
    Chip8_init_power_on [of 700]
  by (simp add: fault_halted_def)

text \<open>
  The claim as stated lets only a soft reset or a fresh construction unset the flag;
  loading a ROM into the halted machine unsets it too.
\<close>

theorem C9_counterexample:
  "halted fault_halted
   \<and> map_option halted (state_of (load_rom (Some fault_rom) fault_halted)) = Some False"
  by (simp add: load_rom_def fault_rom_def fault_halted_def fault_machine_def power_on_def
      MEMORY_SIZE_def enumerate_eq_zip upt_rec memory_set_def state_of_def)



subsection \<open>Snapshots\<close>

lemma u16_halves:
  "push_bit 8 (ucast (ucast (drop_bit 8 w) :: byte) :: u16) OR ucast (ucast w :: byte) = (w :: u16)"
  by (rule bit_word_eqI) (auto simp: bit_simps)

lemma u16_frombytes_tobytes: "u16_frombytes le (concat (map (u16_tobytes le) ws)) = Some ws"
proof (induction ws)
  case Nil
  then show ?case by simp
next
  case (Cons w ws)
  have "push_bit 8 (ucast (ucast (drop_bit 8 w) :: byte) :: u16) OR ucast (ucast w :: byte) = w"
    by (rule u16_halves)
  then show ?case
    using Cons by (cases le) (simp_all add: u16_tobytes_def Let_def)
qed

lemma length_u16_bytes: "length (concat (map (u16_tobytes le) ws)) = 2 * length ws"
  by (induction ws) (simp_all add: u16_tobytes_def Let_def)

lemma to_bytes_big_1:
  assumes "0 \<le> v" "v \<le> 0xFF"
  shows "to_bytes_big 1 v = Some [of_int v]"
  using assms by (simp add: to_bytes_big_def)

lemma to_bytes_big_2:
  assumes "0 \<le> v" "v \<le> 0xFFFF"
  shows "to_bytes_big 2 v = Some [of_int (v div 256), of_int v]"
proof -
  have "[0..<2] = [0, Suc 0]"
    by (simp add: upt_rec)
  then show ?thesis
    using assms by (simp add: to_bytes_big_def)
qed

lemma from_bytes_big_1:
  assumes "n \<le> 0xFF"
  shows "from_bytes_big [of_int (int n) :: byte] = n"
  using assms by (simp add: from_bytes_big_def unat_of_nat)

lemma from_bytes_big_2:
  assumes "n \<le> 0xFFFF"
  shows "from_bytes_big [of_int (int n div 256) :: byte, of_int (int n)] = n"
proof -
  have "int n div 256 = int (n div 256)"
    by (simp add: zdiv_int)
  moreover have "n div 256 < 256"
    using assms by simp
  ultimately have "unat (of_int (int n div 256) :: byte) = n div 256"
    by (simp add: unat_of_nat)
  moreover have "unat (of_int (int n) :: byte) = n mod 256"
    by (simp add: unat_of_nat)
  ultimately show ?thesis
    by (simp add: from_bytes_big_def)
qed


lemma set_timer_timer: "v \<le> 0xFF \<Longrightarrow> timer (set_timer v sd) = v"
proof -
  assume "v \<le> 0xFF"
  then have "v AND 0xFF = v"
    by (simp add: and_00FF)
  then show ?thesis
    by (simp add: set_timer_def Let_def)
qed

lemma snapshot_roundtrip_state:
  assumes "length (memory s) = MEMORY_SIZE" and "length (V s) = V_COUNT"
    and "length (stack s) = STACK_SIZE"
    and "pc s \<le> 0xFFFF" and "I s \<le> 0xFFFF" and "0 \<le> sp s" and "sp s \<le> 0xFF"
    and "delay_timer s \<le> 0xFF" and "timer (sound s) \<le> 0xFF"
  shows "case save_state le s of
           Inl err \<Rightarrow> False
         | Inr bytes \<Rightarrow>
             load_state le (Some bytes) t
               = Ret () (t\<lparr>memory := memory s, V := V s, stack := stack s, pc := pc s, I := I s,
                           sp := sp s, delay_timer := delay_timer s,
                           sound := set_timer (timer (sound s)) (sound t)\<rparr>)
             \<and> timer (set_timer (timer (sound s)) (sound t)) = timer (sound s)"
proof -
  let ?pc = "[of_int (int (pc s) div 256), of_int (int (pc s))] :: byte list"
  let ?i = "[of_int (int (I s) div 256), of_int (int (I s))] :: byte list"
  let ?sp = "[of_int (sp s)] :: byte list"
  let ?dt = "[of_int (int (delay_timer s))] :: byte list"
  let ?st = "[of_int (int (timer (sound s)))] :: byte list"
  let ?stk = "concat (map (u16_tobytes le) (stack s))"
  let ?bytes = "memory s @ V s @ ?stk @ ?pc @ ?i @ ?sp @ ?dt @ ?st"
  have enc: "to_bytes_big 2 (int (pc s)) = Some ?pc" "to_bytes_big 2 (int (I s)) = Some ?i"
    "to_bytes_big 1 (sp s) = Some ?sp" "to_bytes_big 1 (int (delay_timer s)) = Some ?dt"
    "to_bytes_big 1 (int (timer (sound s))) = Some ?st"
    using assms by (intro to_bytes_big_1 to_bytes_big_2; simp)+
  have sv: "save_state le s = Inr ?bytes"
    unfolding save_state_def enc by simp
  have ls: "length ?stk = STACK_SIZE * 2"
    using assms(3) by (simp add: length_u16_bytes)
  have sp: "int (from_bytes_big ?sp) = sp s"
  proof -
    have "sp s = int (nat (sp s))" "nat (sp s) \<le> 0xFF"
      using assms(6,7) by simp_all
    then show ?thesis
      using from_bytes_big_1 [of "nat (sp s)"] by simp
  qed
  have d1: "take MEMORY_SIZE ?bytes = memory s"
    "drop MEMORY_SIZE ?bytes = V s @ ?stk @ ?pc @ ?i @ ?sp @ ?dt @ ?st"
    using assms(1) by simp_all
  have d2: "take V_COUNT (V s @ ?stk @ ?pc @ ?i @ ?sp @ ?dt @ ?st) = V s"
    "drop V_COUNT (V s @ ?stk @ ?pc @ ?i @ ?sp @ ?dt @ ?st) = ?stk @ ?pc @ ?i @ ?sp @ ?dt @ ?st"
    using assms(2) by simp_all
  have d3: "take (STACK_SIZE * 2) (?stk @ ?pc @ ?i @ ?sp @ ?dt @ ?st) = ?stk"
    "drop (STACK_SIZE * 2) (?stk @ ?pc @ ?i @ ?sp @ ?dt @ ?st) = ?pc @ ?i @ ?sp @ ?dt @ ?st"
    using ls by simp_all
  have ld: "load_state le (Some ?bytes) t
      = Ret () (t\<lparr>memory := memory s, V := V s, stack := stack s, pc := pc s, I := I s,
                           sp := sp s, delay_timer := delay_timer s,
                           sound := set_timer (timer (sound s)) (sound t)\<rparr>)"
    unfolding load_state_def Let_def option.case d1 d2 d3 u16_frombytes_tobytes
    using sp from_bytes_big_2 [OF assms(4)] from_bytes_big_2 [OF assms(5)]
      from_bytes_big_1 [OF assms(8)] from_bytes_big_1 [OF assms(9)]
    by simp
  show ?thesis
    using sv ld set_timer_timer [OF assms(9)] by simp
qed

lemma fault_halted_fits:
  "length (memory fault_halted) = MEMORY_SIZE" "length (V fault_halted) = V_COUNT"
  "length (stack fault_halted) = STACK_SIZE"
  "pc fault_halted \<le> 0xFFFF" "I fault_halted \<le> 0xFFFF" "0 \<le> sp fault_halted"
  "sp fault_halted \<le> 0xFF" "delay_timer fault_halted \<le> 0xFF"
  "timer (sound fault_halted) \<le> 0xFF"
  by (simp_all add: fault_halted_def fault_machine_def power_on_def MEMORY_SIZE_def V_COUNT_def
      STACK_SIZE_def Sound_init_def)

text \<open>
  C6, as amended. For an engine state whose arrays have their constructed sizes and whose
  counters fit the widths of the snapshot format (PC and I in two bytes; stack pointer,
  delay timer and sound timer in one byte each), \<^verbatim>\<open>save_state\<close> succeeds, and
  \<^verbatim>\<open>load_state\<close> of its bytes, into any engine \<open>t\<close> and on either byte order, returns
  with memory, registers, stack, PC, I, stack pointer, delay timer and sound timer value
  equal to the saved ones.
\<close>

theorem C6_snapshot_roundtrip:
  assumes "length (memory s) = MEMORY_SIZE" and "length (V s) = V_COUNT"
    and "length (stack s) = STACK_SIZE"
    and "pc s \<le> 0xFFFF" and "I s \<le> 0xFFFF" and "0 \<le> sp s" and "sp s \<le> 0xFF"
    and "delay_timer s \<le> 0xFF" and "timer (sound s) \<le> 0xFF"
  shows "case save_state le s of
           Inl err \<Rightarrow> False
         | Inr bytes \<Rightarrow>
             (case load_state le (Some bytes) t of
                Ret u t' \<Rightarrow>
                  memory t' = memory s \<and> V t' = V s \<and> stack t' = stack s \<and> pc t' = pc s
                  \<and> I t' = I s \<and> sp t' = sp s \<and> delay_timer t' = delay_timer s
                  \<and> timer (sound t') = timer (sound s)
              | Exc err t' \<Rightarrow> False
              | Hang \<Rightarrow> False)"
proof (cases "save_state le s")
  case (Inl err)
  then show ?thesis
    using snapshot_roundtrip_state [OF assms, of le t] by simp
next
  case (Inr bytes)
  then show ?thesis
    using snapshot_roundtrip_state [OF assms, of le t] by simp
qed

theorem C6_snapshot_roundtrip_witness:
  "length (memory fault_halted) = MEMORY_SIZE \<and> length (V fault_halted) = V_COUNT
   \<and> length (stack fault_halted) = STACK_SIZE
   \<and> pc fault_halted \<le> 0xFFFF \<and> I fault_halted \<le> 0xFFFF \<and> 0 \<le> sp fault_halted
   \<and> sp fault_halted \<le> 0xFF \<and> delay_timer fault_halted \<le> 0xFF
   \<and> timer (sound fault_halted) \<le> 0xFF
   \<and> (case save_state True fault_halted of
         Inl err \<Rightarrow> False
       | Inr bytes \<Rightarrow>
           (case load_state True (Some bytes) (power_on 700) of
              Ret u t' \<Rightarrow>
                memory t' = memory fault_halted \<and> V t' = V fault_halted
                \<and> stack t' = stack fault_halted \<and> pc t' = pc fault_halted
                \<and> I t' = I fault_halted \<and> sp t' = sp fault_halted
                \<and> delay_timer t' = delay_timer fault_halted
                \<and> timer (sound t') = timer (sound fault_halted)
            | Exc err t' \<Rightarrow> False
            | Hang \<Rightarrow> False))"
  using fault_halted_fits C6_snapshot_roundtrip [OF fault_halted_fits, of True "power_on 700"]
  by blast

text \<open>
  The claim as stated covers every engine state and has the load replace the engine
  state in full. \<^verbatim>\<open>Fx1E\<close> adds to I without a mask, so I can pass \<open>0xFFFF\<close>;
  \<^verbatim>\<open>save_state\<close> then raises \<^verbatim>\<open>OverflowError\<close> at \<^verbatim>\<open>self.I.to_bytes(2, 'big')\<close> and
  there is no snapshot to load. And the snapshot of a halted machine, loaded into a
  machine that is not halted, leaves that machine not halted: the halted flag is in the
  engine state and not in the snapshot.
\<close>

theorem C6_counterexample:
  "save_state True ((power_on 700)\<lparr>I := 0x10000\<rparr>) = Inl OverflowError
   \<and> decode_and_execute no_input 0xF01E
        ((power_on 700)\<lparr>V := (replicate 16 0)[0 := 1], I := 0xFFFF\<rparr>)
      = Ret () ((power_on 700)\<lparr>V := (replicate 16 0)[0 := 1], I := 0x10000\<rparr>)
   \<and> halted fault_halted
   \<and> (case save_state True fault_halted of
         Inl err \<Rightarrow> False
       | Inr bytes \<Rightarrow>
           map_option halted (state_of (load_state True (Some bytes) (power_on 700)))
             = Some False)"
proof -
  have u: "[0..<2] = [0, Suc 0]"
    by (simp add: upt_rec)
  have a: "save_state True ((power_on 700)\<lparr>I := 0x10000\<rparr>) = Inl OverflowError"
    using u by (simp add: save_state_def to_bytes_big_def power_on_def)
  have b: "decode_and_execute no_input 0xF01E
        ((power_on 700)\<lparr>V := (replicate 16 0)[0 := 1], I := 0xFFFF\<rparr>)
      = Ret () ((power_on 700)\<lparr>V := (replicate 16 0)[0 := 1], I := 0x10000\<rparr>)"
    by (simp add: power_on_def decode_and_execute_def exec_F_def V_get_def)
  have c: "halted fault_halted" "\<not> halted (power_on 700)"
    by (simp_all add: fault_halted_def power_on_def)
  have d: "case save_state True fault_halted of
         Inl err \<Rightarrow> False
       | Inr bytes \<Rightarrow>
           map_option halted (state_of (load_state True (Some bytes) (power_on 700)))
             = Some False"
    using snapshot_roundtrip_state [OF fault_halted_fits, of True "power_on 700"] c(2)
    by (cases "save_state True fault_halted") (simp_all add: state_of_def)
  show ?thesis
    using a b c(1) d by simp
qed

subsection \<open>Drawing a sprite\<close>

lemma grid_ok_nth: "grid_ok d \<Longrightarrow> yy < height d \<Longrightarrow> length (pixels d ! yy) = width d"
  by (simp add: grid_ok_def list_all_length)

lemma drop_bit_0x80:
  assumes "col < 8"
  shows "drop_bit col (0x80::nat) = 2 ^ (7 - col)"
proof -
  have "(0x80::nat) = 2 ^ 7" by simp
  moreover have "drop_bit col ((2::nat) ^ 7) = 2 ^ (7 - col)"
    using assms by (simp only: drop_bit_exp_eq) simp
  ultimately show ?thesis by (simp only:)
qed


lemma msb_first:
  assumes "col < 8"
  shows "((b::nat) AND drop_bit col 0x80 = 0) = (\<not> bit b (7 - col))"
  unfolding drop_bit_0x80 [OF assms] by (rule and_exp_eq_0_iff_not_bit)


lemma grid_ok_update:
  assumes "grid_ok d" "yy < height d"
  shows "grid_ok (d\<lparr>pixels := (pixels d)[yy := (pixels d ! yy)[xx := v]]\<rparr>)"
proof -
  have l: "length (pixels d) = height d" and a: "\<forall>i < length (pixels d). length (pixels d ! i) = width d"
    using assms(1) by (simp_all add: grid_ok_def list_all_length)
  have "length ((pixels d)[yy := (pixels d ! yy)[xx := v]] ! i) = width d" if "i < height d" for i
    using that a l by (cases "i = yy") simp_all
  then show ?thesis
    using assms(1) l by (simp add: grid_ok_def list_all_length)
qed


lemma spec_cols_from: "spec_cols w x b wrap = cols_from w x b wrap [0..<8]"
  by (simp add: spec_cols_def cols_from_def Let_def)

lemma spec_targets_from:
  "spec_targets w h x y sprite n wrap = targets_from w h x y sprite wrap [0..<n]"
  by (simp add: spec_targets_def targets_from_def spec_rows_def rows_from_def)

lemma draw_cols_spec:
  assumes "grid_ok d" "yy < height d" "\<forall>col\<in>set cols. col < 8"
  shows "draw_cols wrap x yy b cols c d =
           Ret (fst (spec_plot (map (\<lambda>xx. (yy, xx)) (cols_from (width d) x b wrap cols)) c (pixels d)))
               (d\<lparr>pixels := snd (spec_plot (map (\<lambda>xx. (yy, xx)) (cols_from (width d) x b wrap cols)) c (pixels d))\<rparr>)"
  using assms
proof (induction cols arbitrary: c d)
  case Nil
  then show ?case by (simp add: cols_from_def)
next
  case (Cons col cols)
  have col: "col < 8" and rest: "\<forall>col\<in>set cols. col < 8"
    using Cons.prems(3) by simp_all
  have w: "0 < width d" and len: "length (pixels d) = height d"
    using Cons.prems(1) by (simp_all add: grid_ok_def)
  have lr: "length (pixels d ! yy) = width d"
    using grid_ok_nth Cons.prems(1,2) by blast
  show ?case
  proof (cases "bit b (7 - col)")
    case False
    then have "b AND drop_bit col 0x80 = 0"
      using msb_first [OF col] by simp
    moreover have "cols_from (width d) x b wrap (col # cols) = cols_from (width d) x b wrap cols"
      using False by (simp add: cols_from_def)
    ultimately show ?thesis
      using Cons.IH [OF Cons.prems(1,2) rest] by simp
  next
    case True
    then have nz: "b AND drop_bit col 0x80 \<noteq> 0"
      using msb_first [OF col] by simp
    define xx where "xx = (if wrap then (x + col) mod width d else x + col)"
    show ?thesis
    proof (cases "xx < width d")
      case False
      then have nw: "\<not> wrap"
        using w by (auto simp: xx_def)
      then have "cols_from (width d) x b wrap (col # cols) = []"
        using True False by (simp add: cols_from_def xx_def)
      then show ?thesis
        using nz False nw w by (simp add: xx_def)
    next
      case inside: True
      let ?d = "d\<lparr>pixels := (pixels d)[yy := (pixels d ! yy)[xx := (pixels d ! yy ! xx) XOR 1]]\<rparr>"
      have g: "grid_ok ?d" "yy < height ?d" "width ?d = width d"
        using grid_ok_update [OF Cons.prems(1,2)] Cons.prems(2) by simp_all
      have cf: "cols_from (width d) x b wrap (col # cols) = xx # cols_from (width d) x b wrap cols"
        using True inside by (cases wrap) (simp_all add: cols_from_def xx_def)
      have step: "draw_cols wrap x yy b (col # cols) c d
          = draw_cols wrap x yy b cols (if pixels d ! yy ! xx = 1 then True else c) ?d"
        using nz inside w len lr Cons.prems(2) by (simp add: xx_def Let_def)
      show ?thesis
        unfolding step cf
        using Cons.IH [OF g(1,2) rest, of "if pixels d ! yy ! xx = 1 then True else c"] g(3)
        by (simp add: disj_commute)
    qed
  qed
qed


lemma spec_plot_append:
  "spec_plot (ts1 @ ts2) c px = spec_plot ts2 (fst (spec_plot ts1 c px)) (snd (spec_plot ts1 c px))"
  by (induction ts1 c px rule: spec_plot.induct) simp_all

lemma grid_ok_plot:
  assumes "grid_ok d" "\<forall>t\<in>set ts. fst t < height d"
  shows "grid_ok (d\<lparr>pixels := snd (spec_plot ts c (pixels d))\<rparr>)"
  using assms
proof (induction ts arbitrary: c d)
  case Nil
  then show ?case by simp
next
  case (Cons t ts)
  obtain yy xx where t: "t = (yy, xx)"
    by (cases t)
  let ?d = "d\<lparr>pixels := (pixels d)[yy := (pixels d ! yy)[xx := (pixels d ! yy ! xx) XOR 1]]\<rparr>"
  have "grid_ok ?d" "\<forall>t\<in>set ts. fst t < height ?d"
    using grid_ok_update [of d yy] Cons.prems t by simp_all
  then have "grid_ok (?d\<lparr>pixels := snd (spec_plot ts (c \<or> pixels d ! yy ! xx = 1) (pixels ?d))\<rparr>)"
    by (rule Cons.IH)
  then show ?case
    by (simp add: t)
qed

lemma draw_rows_spec:
  assumes "grid_ok d" "\<forall>row\<in>set rows. row < length sprite"
  shows "draw_rows wrap x y sprite rows c d =
           Ret (fst (spec_plot (targets_from (width d) (height d) x y sprite wrap rows) c (pixels d)))
               (d\<lparr>pixels := snd (spec_plot (targets_from (width d) (height d) x y sprite wrap rows) c (pixels d))\<rparr>)"
  using assms
proof (induction rows arbitrary: c d)
  case Nil
  then show ?case by (simp add: targets_from_def rows_from_def)
next
  case (Cons row rows)
  have h: "0 < height d"
    using Cons.prems(1) by (simp add: grid_ok_def)
  have row: "row < length sprite" and rest: "\<forall>row\<in>set rows. row < length sprite"
    using Cons.prems(2) by simp_all
  define yy where "yy = (if wrap then (y + row) mod height d else y + row)"
  show ?case
  proof (cases "yy < height d")
    case False
    then have nw: "\<not> wrap"
      using h by (auto simp: yy_def)
    then have "targets_from (width d) (height d) x y sprite wrap (row # rows) = []"
      using False by (simp add: targets_from_def rows_from_def yy_def)
    then show ?thesis
      using False nw h by (simp add: yy_def)
  next
    case True
    let ?ts = "map (\<lambda>xx. (yy, xx)) (spec_cols (width d) x (sprite ! row) wrap)"
    let ?c = "fst (spec_plot ?ts c (pixels d))"
    let ?d = "d\<lparr>pixels := snd (spec_plot ?ts c (pixels d))\<rparr>"
    have cols: "draw_cols wrap x yy (sprite ! row) [0..<8] c d = Ret ?c ?d"
      using draw_cols_spec [OF Cons.prems(1) True, of "[0..<8]" wrap x "sprite ! row" c]
      by (simp add: spec_cols_from)
    have g: "grid_ok ?d"
      using grid_ok_plot [OF Cons.prems(1), of ?ts c] True by simp
    have tf: "targets_from (width d) (height d) x y sprite wrap (row # rows)
        = ?ts @ targets_from (width d) (height d) x y sprite wrap rows"
      using True by (cases wrap) (simp_all add: targets_from_def rows_from_def yy_def)
    have step: "draw_rows wrap x y sprite (row # rows) c d = draw_rows wrap x y sprite rows ?c ?d"
      using True h row cols by (simp add: yy_def Let_def del: draw_cols.simps)
    show ?thesis
      unfolding step tf spec_plot_append
      using Cons.IH [OF g rest, of ?c] by simp
  qed
qed

lemma draw_sprite_plot:
  assumes "grid_ok d" and "n \<le> length sprite"
  shows "draw_sprite d x y sprite n wrap =
           Ret (fst (spec_plot (targets_from (width d) (height d) x y sprite wrap [0..<n]) False
                       (pixels d)))
               (d\<lparr>pixels := snd (spec_plot (targets_from (width d) (height d) x y sprite wrap [0..<n])
                                   False (pixels d)),
                  draw_flag := True\<rparr>)"
proof -
  have "\<forall>row\<in>set [0..<n]. row < length sprite"
    using assms(2) by simp
  then show ?thesis
    using draw_rows_spec [OF assms(1), of "[0..<n]" sprite wrap x y False]
    by (simp add: draw_sprite_def)
qed

text \<open>
  C4. On a display whose grid has its declared, positive dimensions, and for a sprite
  list with at least \<open>n\<close> rows, \<^verbatim>\<open>draw_sprite\<close> returns, and returns what the
  specification's rule gives: the rows and target rows of \<open>spec_rows\<close>, in each row the
  target columns of \<open>spec_cols\<close>, each target pixel XORed in turn, the collision flag
  raised when a target pixel was already set, the draw flag set.
\<close>

theorem C4_draw_sprite_refines_spec:
  assumes "grid_ok d" and "n \<le> length sprite"
  shows "draw_sprite d x y sprite n wrap = spec_draw d x y sprite n wrap"
proof -
  have "spec_draw d x y sprite n wrap =
          Ret (fst (spec_plot (targets_from (width d) (height d) x y sprite wrap [0..<n]) False
                      (pixels d)))
              (d\<lparr>pixels := snd (spec_plot (targets_from (width d) (height d) x y sprite wrap [0..<n])
                                  False (pixels d)),
                 draw_flag := True\<rparr>)"
    by (simp add: spec_draw_def spec_targets_from Let_def)
  then show ?thesis
    using draw_sprite_plot [OF assms] by simp
qed

lemma shape_flip:
  assumes "shape h w px"
  shows "shape h w (px[yy := (px ! yy)[xx := v]])"
proof -
  have l: "length px = h" and a: "\<forall>i < length px. length (px ! i) = w"
    using assms by (simp_all add: shape_def list_all_length)
  have "length (px[yy := (px ! yy)[xx := v]] ! i) = w" if "i < h" for i
    using that a l by (cases "i = yy") simp_all
  then show ?thesis
    using l by (simp add: shape_def list_all_length)
qed

lemma pixel_at_flip:
  assumes "shape h w px" "inside h w t" "inside h w p"
  shows "pixel_at (px[fst t := (px ! fst t)[snd t := v]]) p = (if p = t then v else pixel_at px p)"
proof -
  have l: "length px = h" and a: "length (px ! fst t) = w"
    using assms(1,2) by (simp_all add: shape_def list_all_length inside_def)
  show ?thesis
  proof (cases "fst p = fst t")
    case True
    then show ?thesis
      using l a assms(2,3)
      by (cases "snd p = snd t") (auto simp add: pixel_at_def inside_def prod_eq_iff)
  next
    case False
    then show ?thesis
      using l assms(2,3) by (auto simp add: pixel_at_def inside_def)
  qed
qed

lemma shape_eqI:
  assumes "shape h w a" "shape h w b" "\<And>p. inside h w p \<Longrightarrow> pixel_at a p = pixel_at b p"
  shows "a = b"
proof (rule nth_equalityI)
  show "length a = length b"
    using assms(1,2) by (simp add: shape_def)
next
  fix i assume i: "i < length a"
  then have ih: "i < h"
    using assms(1) by (simp add: shape_def)
  have la: "length (a ! i) = w" and lb: "length (b ! i) = w"
    using assms(1,2) i by (simp_all add: shape_def list_all_length)
  show "a ! i = b ! i"
  proof (rule nth_equalityI)
    show "length (a ! i) = length (b ! i)"
      using la lb by simp
  next
    fix j assume "j < length (a ! i)"
    then have "inside h w (i, j)"
      using ih la by (simp add: inside_def)
    then show "a ! i ! j = b ! i ! j"
      using assms(3) [of "(i, j)"] by (simp add: pixel_at_def)
  qed
qed


lemma plot_distinct:
  assumes "shape h w px" "\<forall>t\<in>set ts. inside h w t" "distinct ts"
    "\<forall>t\<in>set ts. pixel_at px t = v"
  shows "fst (spec_plot ts c px) = (c \<or> (ts \<noteq> [] \<and> v = 1))
       \<and> shape h w (snd (spec_plot ts c px))
       \<and> (\<forall>p. inside h w p \<longrightarrow>
            pixel_at (snd (spec_plot ts c px)) p = (if p \<in> set ts then v XOR 1 else pixel_at px p))"
  using assms
proof (induction ts arbitrary: c px)
  case Nil
  then show ?case by simp
next
  case (Cons t ts)
  obtain yy xx where t: "t = (yy, xx)"
    by (cases t)
  let ?px = "px[yy := (px ! yy)[xx := (px ! yy ! xx) XOR 1]]"
  have tin: "inside h w t" and tv: "px ! yy ! xx = v"
    using Cons.prems(2,4) t by (simp_all add: pixel_at_def)
  have sh: "shape h w ?px"
    using shape_flip [OF Cons.prems(1)] .
  have at: "pixel_at ?px p = (if p = t then v XOR 1 else pixel_at px p)" if "inside h w p" for p
    using pixel_at_flip [OF Cons.prems(1) tin that, of "(px ! yy ! xx) XOR 1"] t tv by simp
  have rest: "\<forall>u\<in>set ts. inside h w u" "distinct ts" "t \<notin> set ts"
    using Cons.prems(2,3) by simp_all
  have vals: "\<forall>u\<in>set ts. pixel_at ?px u = v"
    using at rest(1,3) Cons.prems(4) by auto
  have ih: "fst (spec_plot ts (c \<or> v = 1) ?px) = ((c \<or> v = 1) \<or> (ts \<noteq> [] \<and> v = 1))
       \<and> shape h w (snd (spec_plot ts (c \<or> v = 1) ?px))
       \<and> (\<forall>p. inside h w p \<longrightarrow>
            pixel_at (snd (spec_plot ts (c \<or> v = 1) ?px)) p
              = (if p \<in> set ts then v XOR 1 else pixel_at ?px p))"
    using Cons.IH [OF sh rest(1,2) vals] .
  have sp: "spec_plot (t # ts) c px = spec_plot ts (c \<or> v = 1) ?px"
    using t tv by simp
  show ?case
    unfolding sp using ih at by auto
qed


lemma mod_shift_inj:
  assumes "(a + i) mod m = (a + j) mod m" "i < k" "j < k" "k \<le> m"
  shows "i = (j::nat)"
proof -
  have aux: "p = q" if "(a + p) mod m = (a + q) mod m" "p \<le> q" "q < k" for p q :: nat
  proof -
    have "a + p \<le> a + q"
      using that(2) by simp
    then have "m dvd (a + q) - (a + p)"
      using that(1) mod_eq_dvd_iff_nat [of "a + p" "a + q" m] by simp
    then have "m dvd q - p"
      by simp
    moreover have "q - p < m"
      using that(3) assms(4) by simp
    ultimately have "q - p = 0"
      using nat_dvd_not_less by blast
    then show ?thesis
      using that(2) by simp
  qed
  show ?thesis
  proof (cases "i \<le> j")
    case True
    then show ?thesis using aux [of i j] assms by simp
  next
    case False
    then show ?thesis using aux [of j i] assms by simp
  qed
qed

lemma spec_cols_inside:
  assumes "0 < w"
  shows "\<forall>xx\<in>set (spec_cols w x b wrap). xx < w"
proof (cases wrap)
  case True
  then show ?thesis
    using assms by (simp add: spec_cols_def Let_def)
next
  case False
  then show ?thesis
    by (auto simp add: spec_cols_def Let_def dest: set_takeWhileD)
qed

lemma spec_cols_distinct:
  assumes "8 \<le> w"
  shows "distinct (spec_cols w x b wrap)"
proof (cases wrap)
  case True
  have "inj_on (\<lambda>col. (x + col) mod w) (set (filter (\<lambda>col. bit b (7 - col)) [0..<8]))"
    by (rule inj_onI) (use assms in \<open>auto dest: mod_shift_inj [where k = 8]\<close>)
  then show ?thesis
    using True by (simp add: spec_cols_def Let_def distinct_map)
next
  case False
  have "distinct (takeWhile (\<lambda>col. x + col < w) (filter (\<lambda>col. bit b (7 - col)) [0..<8]))"
    by (rule distinct_takeWhile) simp
  then show ?thesis
    using False by (simp add: spec_cols_def Let_def distinct_map inj_on_def)
qed

lemma spec_rows_inside:
  assumes "0 < h"
  shows "\<forall>r\<in>set (spec_rows h y n wrap). snd r < h"
proof (cases wrap)
  case True
  then show ?thesis
    using assms by (simp add: spec_rows_def)
next
  case False
  then show ?thesis
    by (auto simp add: spec_rows_def dest: set_takeWhileD)
qed

lemma spec_rows_distinct:
  assumes "n \<le> h"
  shows "distinct (map snd (spec_rows h y n wrap))"
proof (cases wrap)
  case True
  have "inj_on (\<lambda>row. (y + row) mod h) (set [0..<n])"
    by (rule inj_onI) (use assms in \<open>auto dest: mod_shift_inj [where k = n]\<close>)
  then show ?thesis
    using True by (simp add: spec_rows_def distinct_map comp_def)
next
  case False
  have "distinct (takeWhile (\<lambda>row. y + row < h) [0..<n])"
    by (rule distinct_takeWhile) simp
  then show ?thesis
    using False by (simp add: spec_rows_def distinct_map comp_def inj_on_def)
qed

lemma row_targets_distinct:
  assumes "distinct (map snd rs)" "\<And>b. distinct (f b)"
  shows "distinct (concat (map (\<lambda>(row, yy). map (\<lambda>xx. (yy, xx)) (f (g row))) rs))"
  using assms(1)
proof (induction rs)
  case Nil
  then show ?case by simp
next
  case (Cons r rs)
  obtain row yy where r: "r = (row, yy)"
    by (cases r)
  have "yy \<notin> snd ` set rs" "distinct (map snd rs)"
    using Cons.prems r by simp_all
  moreover have "distinct (map (\<lambda>xx. (yy, xx)) (f (g row)))"
    using assms(2) by (simp add: distinct_map inj_on_def)
  ultimately show ?case
    using Cons.IH by (auto simp add: r image_iff)
qed

lemma spec_targets_distinct:
  assumes "8 \<le> w" "n \<le> h"
  shows "distinct (spec_targets w h x y sprite n wrap)"
  unfolding spec_targets_def
  using row_targets_distinct [OF spec_rows_distinct [OF assms(2)],
      where f = "\<lambda>b. spec_cols w x b wrap" and g = "\<lambda>row. sprite ! row"]
    spec_cols_distinct [OF assms(1)]
  by simp

lemma spec_targets_inside:
  assumes "0 < w" "0 < h"
  shows "\<forall>t\<in>set (spec_targets w h x y sprite n wrap). inside h w t"
  using spec_cols_inside [OF assms(1)] spec_rows_inside [OF assms(2)]
  by (fastforce simp add: spec_targets_def inside_def)


lemma grid_ok_shape: "grid_ok d \<Longrightarrow> shape (height d) (width d) (pixels d)"
  by (simp add: grid_ok_def shape_def)

lemma draw_twice:
  assumes "grid_ok d" and "pixels d = replicate (height d) (replicate (width d) 0)"
    and "8 \<le> width d" and "n \<le> height d" and "n \<le> length sprite"
  shows "draw_sprite d x y sprite n wrap
           = Ret False
               (d\<lparr>pixels := snd (spec_plot (spec_targets (width d) (height d) x y sprite n wrap)
                                   False (pixels d)),
                  draw_flag := True\<rparr>)"
    and "draw_sprite
           (d\<lparr>pixels := snd (spec_plot (spec_targets (width d) (height d) x y sprite n wrap)
                               False (pixels d)),
              draw_flag := True\<rparr>) x y sprite n wrap
           = Ret (spec_targets (width d) (height d) x y sprite n wrap \<noteq> []) (d\<lparr>draw_flag := True\<rparr>)"
    and "\<forall>p. inside (height d) (width d) p \<longrightarrow>
           pixel_at (snd (spec_plot (spec_targets (width d) (height d) x y sprite n wrap)
                            False (pixels d))) p
             = (if p \<in> set (spec_targets (width d) (height d) x y sprite n wrap) then 1 else 0)"
proof -
  let ?h = "height d" and ?w = "width d"
  let ?T = "spec_targets ?w ?h x y sprite n wrap"
  let ?px1 = "snd (spec_plot ?T False (pixels d))"
  let ?d1 = "d\<lparr>pixels := ?px1, draw_flag := True\<rparr>"
  let ?px2 = "snd (spec_plot ?T False ?px1)"
  have pos: "0 < ?w" "0 < ?h"
    using assms(1) by (simp_all add: grid_ok_def)
  have ins: "\<forall>t\<in>set ?T. inside ?h ?w t"
    using spec_targets_inside [OF pos] .
  have dis: "distinct ?T"
    using spec_targets_distinct [OF assms(3,4)] .
  have sh0: "shape ?h ?w (pixels d)"
    using grid_ok_shape [OF assms(1)] .
  have blank: "pixel_at (pixels d) p = 0" if "inside ?h ?w p" for p
    using that assms(2) by (simp add: pixel_at_def inside_def)
  then have v0: "\<forall>t\<in>set ?T. pixel_at (pixels d) t = 0"
    using ins by simp
  note P1 = plot_distinct [OF sh0 ins dis v0, of False]
  have p1: "fst (spec_plot ?T False (pixels d)) = False" "shape ?h ?w ?px1"
    using P1 by simp_all
  have p1c: "pixel_at ?px1 p = (if p \<in> set ?T then 1 else 0)" if "inside ?h ?w p" for p
  proof -
    have "pixel_at ?px1 p = (if p \<in> set ?T then 0 XOR 1 else pixel_at (pixels d) p)"
      using P1 that by blast
    then show ?thesis
      using blank [OF that] by simp
  qed
  have v1: "\<forall>t\<in>set ?T. pixel_at ?px1 t = 1"
    using ins p1c by simp
  note P2 = plot_distinct [OF p1(2) ins dis v1, of False]
  have p2: "fst (spec_plot ?T False ?px1) = (?T \<noteq> [])" "shape ?h ?w ?px2"
    using P2 by simp_all
  have p2c: "pixel_at ?px2 p = (if p \<in> set ?T then 0 else pixel_at ?px1 p)"
    if "inside ?h ?w p" for p
  proof -
    have "pixel_at ?px2 p = (if p \<in> set ?T then 1 XOR 1 else pixel_at ?px1 p)"
      using P2 that by blast
    then show ?thesis
      by simp
  qed
  have "pixel_at ?px2 p = pixel_at (pixels d) p" if "inside ?h ?w p" for p
    using p2c [OF that] p1c [OF that] blank [OF that] by simp
  then have restored: "?px2 = pixels d"
    using shape_eqI [OF p2(2) sh0] by blast
  have g1: "grid_ok ?d1"
    using p1(2) pos by (simp add: grid_ok_def shape_def)
  have first: "draw_sprite d x y sprite n wrap = Ret False ?d1"
    using draw_sprite_plot [OF assms(1,5), of x y wrap] p1(1)
    by (simp add: spec_targets_from)
  have second: "draw_sprite ?d1 x y sprite n wrap = Ret (?T \<noteq> []) (d\<lparr>draw_flag := True\<rparr>)"
    using draw_sprite_plot [OF g1 assms(5), of x y wrap] p2(1) restored
    by (simp add: spec_targets_from)
  show "draw_sprite d x y sprite n wrap = Ret False ?d1"
    using first .
  show "draw_sprite ?d1 x y sprite n wrap = Ret (?T \<noteq> []) (d\<lparr>draw_flag := True\<rparr>)"
    using second .
  show "\<forall>p. inside ?h ?w p \<longrightarrow> pixel_at ?px1 p = (if p \<in> set ?T then 1 else 0)"
    using p1c by blast
qed


text \<open>
  C7, as amended. On a blank display at least 8 pixels wide, for a sprite of at most
  \<open>height\<close> rows (every \<^verbatim>\<open>Dxyn\<close> sprite on the 64 by 32 display), any position and
  either wrap setting: the first draw returns no collision and sets exactly the target
  pixels of the sprite's set bits; the second draw leaves every pixel unset again and
  returns a collision exactly when the sprite has a target pixel, that is, when at least
  one of its set bits lands on the screen.
\<close>

theorem C7_draw_twice_restores:
  assumes "grid_ok d" and "pixels d = replicate (height d) (replicate (width d) 0)"
    and "8 \<le> width d" and "n \<le> height d" and "n \<le> length sprite"
  shows "draw_sprite d x y sprite n wrap
           = Ret False
               (d\<lparr>pixels := snd (spec_plot (spec_targets (width d) (height d) x y sprite n wrap)
                                   False (pixels d)),
                  draw_flag := True\<rparr>)
       \<and> (\<forall>p. inside (height d) (width d) p \<longrightarrow>
             pixel_at (snd (spec_plot (spec_targets (width d) (height d) x y sprite n wrap)
                              False (pixels d))) p
               = (if p \<in> set (spec_targets (width d) (height d) x y sprite n wrap) then 1 else 0))
       \<and> draw_sprite
           (d\<lparr>pixels := snd (spec_plot (spec_targets (width d) (height d) x y sprite n wrap)
                               False (pixels d)),
              draw_flag := True\<rparr>) x y sprite n wrap
           = Ret (spec_targets (width d) (height d) x y sprite n wrap \<noteq> [])
               (d\<lparr>draw_flag := True\<rparr>)"
  using draw_twice [OF assms, of x y wrap] by blast

lemma targets_F0: "spec_targets 64 32 60 0 [0xF0] 1 True = [(0, 60), (0, 61), (0, 62), (0, 63)]"
proof -
  have "[0..<8] = [0, 1, 2, 3, 4, 5, 6, 7]" "[0..<1] = [0]"
    by (simp_all add: upt_rec)
  then show ?thesis
    by (simp add: spec_targets_def spec_rows_def spec_cols_def bit_Suc_0_iff)
qed

lemma grid_ok_init: "0 < w \<Longrightarrow> 0 < h \<Longrightarrow> grid_ok (Display_init w h)"
  by (simp add: grid_ok_def Display_init_def list_all_iff)

theorem C4_draw_sprite_refines_spec_witness:
  "grid_ok (Display_init 64 32) \<and> 2 \<le> length [0xF0, 0x90 :: nat]
   \<and> draw_sprite (Display_init 64 32) 62 31 [0xF0, 0x90] 2 True
       = spec_draw (Display_init 64 32) 62 31 [0xF0, 0x90] 2 True"
proof -
  have h: "grid_ok (Display_init 64 32)" "2 \<le> length [0xF0, 0x90 :: nat]"
    by (simp_all add: grid_ok_init)
  show ?thesis
    using h C4_draw_sprite_refines_spec [OF h, of 62 31 True] by blast
qed

theorem C7_draw_twice_restores_witness:
  "grid_ok (Display_init 64 32)
   \<and> pixels (Display_init 64 32)
       = replicate (height (Display_init 64 32)) (replicate (width (Display_init 64 32)) 0)
   \<and> 8 \<le> width (Display_init 64 32) \<and> 1 \<le> height (Display_init 64 32)
   \<and> 1 \<le> length [0xF0 :: nat]
   \<and> inside (height (Display_init 64 32)) (width (Display_init 64 32)) (0, 63)
   \<and> draw_sprite (Display_init 64 32) 60 0 [0xF0] 1 True
       = Ret False
           ((Display_init 64 32)\<lparr>pixels :=
               snd (spec_plot [(0, 60), (0, 61), (0, 62), (0, 63)] False
                      (pixels (Display_init 64 32))),
             draw_flag := True\<rparr>)
   \<and> pixel_at (snd (spec_plot [(0, 60), (0, 61), (0, 62), (0, 63)] False
                       (pixels (Display_init 64 32)))) (0, 63) = 1
   \<and> draw_sprite
         ((Display_init 64 32)\<lparr>pixels :=
             snd (spec_plot [(0, 60), (0, 61), (0, 62), (0, 63)] False
                    (pixels (Display_init 64 32))),
           draw_flag := True\<rparr>) 60 0 [0xF0] 1 True
       = Ret True ((Display_init 64 32)\<lparr>draw_flag := True\<rparr>)"
proof -
  have h: "grid_ok (Display_init 64 32)"
    "pixels (Display_init 64 32)
       = replicate (height (Display_init 64 32)) (replicate (width (Display_init 64 32)) 0)"
    "8 \<le> width (Display_init 64 32)" "1 \<le> height (Display_init 64 32)"
    "1 \<le> length [0xF0 :: nat]"
    by (simp_all add: grid_ok_init) (simp_all add: Display_init_def)
  have w: "width (Display_init 64 32) = 64" "height (Display_init 64 32) = 32"
    by (simp_all add: Display_init_def)
  have i: "inside (height (Display_init 64 32)) (width (Display_init 64 32)) (0, 63)"
    by (simp add: inside_def Display_init_def)
  show ?thesis
    using h i C7_draw_twice_restores [OF h, of 60 0 True]
    unfolding w targets_F0 by auto
qed

text \<open>
  The claim as stated has the second draw collide for every sprite, and the first draw
  never. A sprite with no set bit touches nothing, and both draws return no collision;
  and with wrap a sprite of 33 rows comes back onto its own first row, so that already
  the first draw on the blank 64 by 32 display returns a collision.
\<close>

theorem C7_counterexample:
  "draw_sprite (Display_init 64 32) 0 0 [0] 1 False
     = Ret False ((Display_init 64 32)\<lparr>draw_flag := True\<rparr>)
   \<and> draw_sprite ((Display_init 64 32)\<lparr>draw_flag := True\<rparr>) 0 0 [0] 1 False
     = Ret False ((Display_init 64 32)\<lparr>draw_flag := True\<rparr>)
   \<and> value_of (draw_sprite (Display_init 64 32) 0 0 (replicate 33 0x80) 33 True) = Some True"
proof -
  have u: "[0..<8] = [0, 1, 2, 3, 4, 5, 6, 7]" "[0..<1] = [0]"
    by (simp_all add: upt_rec)
  have v: "[0..<33] = [0, 1, 2, 3, 4, 5, 6, 7, 8, 9, 10, 11, 12, 13, 14, 15, 16, 17, 18, 19,
      20, 21, 22, 23, 24, 25, 26, 27, 28, 29, 30, 31, 32]"
    by (simp add: upt_rec)
  have a: "draw_sprite (Display_init 64 32) 0 0 [0] 1 False
       = Ret False ((Display_init 64 32)\<lparr>draw_flag := True\<rparr>)"
    "draw_sprite ((Display_init 64 32)\<lparr>draw_flag := True\<rparr>) 0 0 [0] 1 False
       = Ret False ((Display_init 64 32)\<lparr>draw_flag := True\<rparr>)"
    using u by (simp_all add: draw_sprite_def Display_init_def)
  have b: "value_of (draw_sprite (Display_init 64 32) 0 0 (replicate 33 0x80) 33 True) = Some True"
    unfolding draw_sprite_def v
    by (simp add: u Display_init_def value_of_def)
  show ?thesis
    using a b by simp
qed

end
